theory Spec2Isabelle
  imports Main "HOL-Library.Word" "HOL-Library.Code_Target_Numeral"
begin

section \<open>The ICO marketplace contract\<close>

text \<open>
  A shallow embedding of the Solidity contract \<open>ICOMarketplace\<close>
  (\<open>pragma solidity ^0.8.26\<close>). Every external function takes the state in which its body
  runs, \<open>msg.sender\<close> (and \<open>msg.value\<close> for the payable one) and its arguments, and returns
  either the error with which it reverts or the state it leaves.

  What the model fixes beyond the text of the contract:
  \<^item> \<open>uint256\<close> is \<open>256 word\<close> and \<open>address\<close> is \<open>160 word\<close>. Arithmetic of the contract is
    checked, as the compiler version makes it: an operation whose exact result does not fit
    in 256 bits reverts.
  \<^item> The loop counters of the view functions are natural numbers: they never exceed the
    length of the index array.
  \<^item> Balances of native currency are natural numbers (the host keeps them far below
    \<open>2^256\<close>).
  \<^item> The payment to the creator hands control to the code of the creator's address, and
    the contract has no lock against re-entrancy: that code may call the entry points of the
    marketplace before \<open>buyToken\<close> goes on. The code of an address is modelled by what it
    does to the marketplace when it is paid: it rejects the payment, or it accepts it and
    makes a list of calls. What else such code does on the host is not followed within a
    transaction.
  \<^item> The asset is the ledger the specification describes; its methods do not call back
    into the marketplace.
\<close>

subsection \<open>Data\<close>

type_synonym address = "160 word"
type_synonym uint256 = "256 word"

text \<open>The struct \<open>TokenDetails\<close>.\<close>

record TokenDetails =
  token :: address
  supported :: bool
  price :: uint256
  creator :: address
  name :: string
  symbol :: string

text \<open>The value every key of a Solidity mapping holds before it is written, which is also
  the value of each element of a freshly allocated memory array.\<close>

definition zeroDetails :: TokenDetails where
  "zeroDetails = \<lparr>token = 0, supported = False, price = 0, creator = 0, name = [], symbol = []\<rparr>"

text \<open>The events of the contract that are emitted (\<open>TokenRecieved\<close> is declared and never
  emitted).\<close>

datatype event =
    TokenTransferred address address uint256
  | TokenWidthdraw address address uint256
  | TokenAdded address uint256 address string string

text \<open>
  Modelled from the spec: the external asset collaborator behind the interface \<open>IERC20\<close>
  (section 6 of the specification: \<open>transfer\<close>, \<open>balanceOf\<close>, \<open>name\<close>, \<open>symbol\<close>), whose code
  is not part of the contract. An asset is a ledger of balances with a display name and a
  symbol.
\<close>

record erc20 =
  tname :: string
  tsymbol :: string
  balances :: "address \<Rightarrow> uint256"

text \<open>
  What the code of an address does when the marketplace pays it. A call back into the
  marketplace is one of its three state-changing functions, made with the paid address as
  \<open>msg.sender\<close>. The paid code either lets a failure of such a call pass (\<open>Try\<close>: a
  low-level call, or a call in a \<open>try\<close> statement) or fails with it (\<open>Must\<close>). An address
  without code accepts every payment and calls nothing: \<open>Accepts []\<close>.
\<close>

datatype reentry =
    ReCreateICOSale address uint256
  | ReBuyToken uint256 address uint256
  | ReWidthdrawToken address uint256

datatype step = Try reentry | Must reentry

datatype reaction = Rejects | Accepts "step list"

text \<open>
  The state: the three storage variables of the contract, its own address
  (\<open>address(this)\<close>), the event log, and the part of the host the contract touches: the
  native-currency balances, how each address reacts to a payment, and the assets deployed
  at each address (\<open>None\<close>: no asset there, every call to it fails).
\<close>

record state =
  tokenDetails :: "address \<Rightarrow> TokenDetails"
  allSupportedTokens :: "address list"
  owner :: address
  this :: address
  events :: "event list"
  eth :: "address \<Rightarrow> nat"
  on_payment :: "address \<Rightarrow> reaction"
  assets :: "address \<Rightarrow> erc20 option"

text \<open>
  The reasons for which a call reverts, named as the specification names them. In the
  contract they are the messages of the \<open>require\<close> statements:
  \<^item> \<open>NotSupported\<close>: "Token Not Supported" (modifier \<open>supportedToken\<close>, \<open>getBalance\<close>,
    \<open>getTokenDetails\<close>);
  \<^item> \<open>Unauthorized\<close>: "Caller is not the Toke Creator" (modifier \<open>onlyCreator\<close>);
  \<^item> \<open>InvalidAmount\<close>: "Amount must be greater then 0", "Amount must be grater then Zero";
  \<^item> \<open>ArithmeticOverflow\<close>: the \<open>require\<close> of \<open>multiply\<close>, which has no message, and the
    panic of a checked \<open>uint256\<close> operation that overflows;
  \<^item> \<open>IncorrectPayment\<close>: "Incorrect Ether amount sent";
  \<^item> \<open>PaymentForwardingFailed\<close>: "Failed to transfer Ether to token creator";
  \<^item> \<open>TransferFailed\<close>: "TRANSFER FAILED", "Token Transfer Failed";
  \<^item> \<open>InsufficientBalance\<close>: "Insufficient Tokan Balance";
  \<^item> \<open>DirectPaymentRejected\<close>: "Contract dose not recive ETH directly";
  \<^item> \<open>ExternalCallFailed\<close>: a call to \<open>name\<close>, \<open>symbol\<close> or \<open>balanceOf\<close> of the asset failed;
  \<^item> \<open>IndexOutOfBounds\<close>: the panic of an array access out of range;
  \<^item> \<open>InsufficientFunds\<close>: the host refuses a call whose sender cannot pay the value
    attached to it (the body of the function does not run);
  \<^item> \<open>OutOfGas\<close>: the resources of the host do not allow another nested purchase.
\<close>

datatype error =
    NotSupported
  | Unauthorized
  | InvalidAmount
  | ArithmeticOverflow
  | IncorrectPayment
  | PaymentForwardingFailed
  | TransferFailed
  | InsufficientBalance
  | DirectPaymentRejected
  | ExternalCallFailed
  | IndexOutOfBounds
  | InsufficientFunds
  | OutOfGas

subsection \<open>The host and the external asset\<close>

text \<open>A checked multiplication of two \<open>uint256\<close>: Solidity 0.8 reverts when the product
  does not fit.\<close>

definition checked_mul :: "uint256 \<Rightarrow> uint256 \<Rightarrow> error + uint256" where
  "checked_mul x y =
     (if unat x * unat y < 2 ^ 256 then Inr (x * y) else Inl ArithmeticOverflow)"

text \<open>
  Modelled from the spec: \<open>transfer\<close> of the external asset, called by the marketplace. The
  asset moves \<open>amt\<close> units from the caller's balance to the recipient's and refuses
  (\<open>None\<close>: it reverts or returns false, which the contract treats alike) when the caller
  holds less than \<open>amt\<close>.
\<close>

definition ledger_move :: "(address \<Rightarrow> uint256) \<Rightarrow> address \<Rightarrow> address \<Rightarrow> uint256 \<Rightarrow> (address \<Rightarrow> uint256)" where
  "ledger_move b from to amt =
     (let b1 = b(from := b from - amt) in b1(to := b1 to + amt))"

definition erc20_transfer :: "state \<Rightarrow> address \<Rightarrow> address \<Rightarrow> uint256 \<Rightarrow> state option" where
  "erc20_transfer s tok to amt =
     (case assets s tok of
        None \<Rightarrow> None
      | Some a \<Rightarrow>
          if balances a (this s) < amt then None
          else Some (s\<lparr>assets := (assets s)(tok \<mapsto>
                        a\<lparr>balances := ledger_move (balances a) (this s) to amt\<rparr>)\<rparr>))"

text \<open>Modelled from the spec: \<open>balanceOf\<close> of the external asset.\<close>

definition erc20_balanceOf :: "state \<Rightarrow> address \<Rightarrow> address \<Rightarrow> uint256 option" where
  "erc20_balanceOf s tok holder = map_option (\<lambda>a. balances a holder) (assets s tok)"

subsection \<open>The functions of the contract\<close>

text \<open>\<open>receive() external payable\<close> reverts always.\<close>

definition receive :: "state \<Rightarrow> address \<Rightarrow> uint256 \<Rightarrow> error + state" where
  "receive s sender val = Inl DirectPaymentRejected"

text \<open>The constructor: \<open>owner = msg.sender\<close>; the mapping and the array start empty. The
  host supplies the address of the new contract and its own state.\<close>

definition constructor :: "address \<Rightarrow> address \<Rightarrow> (address \<Rightarrow> nat) \<Rightarrow> (address \<Rightarrow> reaction) \<Rightarrow>
    (address \<Rightarrow> erc20 option) \<Rightarrow> state" where
  "constructor self sender e react ast =
     \<lparr>tokenDetails = (\<lambda>_. zeroDetails), allSupportedTokens = [], owner = sender,
      this = self, events = [], eth = e, on_payment = react, assets = ast\<rparr>"

text \<open>\<open>createICOSale\<close>: reads name and symbol from the asset, writes the listing, pushes the
  token on the index array, emits \<open>TokenAdded\<close>. There is no modifier and no check.\<close>

definition createICOSale :: "state \<Rightarrow> address \<Rightarrow> address \<Rightarrow> uint256 \<Rightarrow> error + state" where
  "createICOSale s sender tok pr =
     (case assets s tok of
        None \<Rightarrow> Inl ExternalCallFailed
      | Some a \<Rightarrow>
          let tokenName = tname a; tokenSymbol = tsymbol a in
          Inr (s\<lparr>tokenDetails := (tokenDetails s)(tok :=
                    \<lparr>token = tok, supported = True, price = pr, creator = sender,
                     name = tokenName, symbol = tokenSymbol\<rparr>),
                 allSupportedTokens := allSupportedTokens s @ [tok],
                 events := events s @ [TokenAdded tok pr sender tokenName tokenSymbol]\<rparr>))"

text \<open>\<open>multiply\<close>: \<open>require(y == 0 || (z = x * y) / y == x)\<close>. When \<open>y\<close> is zero the second
  operand is not evaluated and \<open>z\<close> keeps its initial value zero.\<close>

definition multiply :: "uint256 \<Rightarrow> uint256 \<Rightarrow> error + uint256" where
  "multiply x y =
     (if y = 0 then Inr 0
      else case checked_mul x y of
             Inl e \<Rightarrow> Inl e
           | Inr z \<Rightarrow> if z div y = x then Inr z else Inl ArithmeticOverflow)"

text \<open>
  \<open>buyToken\<close>, payable, with the modifier \<open>supportedToken\<close>. The state \<open>s\<close> is the one
  the body runs in: the host has already moved \<open>msg.value\<close> from the sender to the
  contract. The first argument is what the host does at
  \<open>details.creator.call{value: msg.value}("")\<close>: it returns the state after the call when
  the call reports success (\<open>sent\<close> is true) and \<open>None\<close> when it reports failure. The host's
  own \<open>send_value\<close> is defined below, since the paid code may call \<open>buyToken\<close> again.
\<close>

type_synonym pay_fn = "state \<Rightarrow> address \<Rightarrow> uint256 \<Rightarrow> state option"

type_synonym buy_fn = "state \<Rightarrow> address \<Rightarrow> uint256 \<Rightarrow> address \<Rightarrow> uint256 \<Rightarrow> error + state"

definition buyToken :: "pay_fn \<Rightarrow> state \<Rightarrow> address \<Rightarrow> uint256 \<Rightarrow> address \<Rightarrow> uint256 \<Rightarrow> error + state" where
  "buyToken call_value s sender val tok amount =
     (if \<not> supported (tokenDetails s tok) then Inl NotSupported
      else if \<not> (amount > 0) then Inl InvalidAmount
      else let details = tokenDetails s tok in
        (case multiply (price details) amount of
           Inl e \<Rightarrow> Inl e
         | Inr totalCost \<Rightarrow>
             if val \<noteq> totalCost then Inl IncorrectPayment
             else (case call_value s (creator details) val of
                     None \<Rightarrow> Inl PaymentForwardingFailed
                   | Some s1 \<Rightarrow>
                       (case checked_mul amount (10 ^ 18) of
                          Inl e \<Rightarrow> Inl e
                        | Inr scaled \<Rightarrow>
                            (case erc20_transfer s1 tok sender scaled of
                               None \<Rightarrow> Inl TransferFailed
                             | Some s2 \<Rightarrow>
                                 Inr (s2\<lparr>events := events s2 @
                                        [TokenTransferred tok sender amount]\<rparr>))))))"

text \<open>\<open>getBalance\<close>.\<close>

definition getBalance :: "state \<Rightarrow> address \<Rightarrow> error + uint256" where
  "getBalance s tok =
     (if \<not> supported (tokenDetails s tok) then Inl NotSupported
      else case erc20_balanceOf s tok (this s) of
             None \<Rightarrow> Inl ExternalCallFailed
           | Some b \<Rightarrow> Inr b)"

text \<open>\<open>getSupportedTokens\<close>.\<close>

definition getSupportedTokens :: "state \<Rightarrow> address list" where
  "getSupportedTokens s = allSupportedTokens s"

text \<open>\<open>widthdrawToken\<close>, with the modifiers \<open>onlyCreator\<close> and \<open>supportedToken\<close>, which run
  in this order.\<close>

definition widthdrawToken :: "state \<Rightarrow> address \<Rightarrow> address \<Rightarrow> uint256 \<Rightarrow> error + state" where
  "widthdrawToken s sender tok amount =
     (if sender \<noteq> creator (tokenDetails s tok) then Inl Unauthorized
      else if \<not> supported (tokenDetails s tok) then Inl NotSupported
      else if \<not> (amount > 0) then Inl InvalidAmount
      else (case erc20_balanceOf s tok (this s) of
              None \<Rightarrow> Inl ExternalCallFailed
            | Some balance \<Rightarrow>
                if \<not> (balance \<ge> amount) then Inl InsufficientBalance
                else (case erc20_transfer s tok sender amount of
                        None \<Rightarrow> Inl TransferFailed
                      | Some s1 \<Rightarrow>
                          Inr (s1\<lparr>events := events s1 @ [TokenWidthdraw tok sender amount]\<rparr>))))"

text \<open>\<open>getTokenDetails\<close>.\<close>

definition getTokenDetails :: "state \<Rightarrow> address \<Rightarrow> error + TokenDetails" where
  "getTokenDetails s tok =
     (if \<not> supported (tokenDetails s tok) then Inl NotSupported
      else Inr (tokenDetails s tok))"

text \<open>\<open>getTokenCreatedBy\<close>: the first loop counts the listings of the index array whose
  creator is \<open>_creator\<close>.\<close>

function count_loop :: "state \<Rightarrow> address \<Rightarrow> nat \<Rightarrow> nat \<Rightarrow> nat" where
  "count_loop s cr i count =
     (if i < length (allSupportedTokens s)
      then count_loop s cr (i + 1)
             (if creator (tokenDetails s (allSupportedTokens s ! i)) = cr then count + 1 else count)
      else count)"
  by pat_completeness auto
termination
  by (relation "measure (\<lambda>(s, cr, i, count). length (allSupportedTokens s) - i)") auto

text \<open>The second loop writes the matching listings into the array \<open>tokens\<close> at \<open>index\<close>; a
  write past the end of a memory array panics.\<close>

function fill_loop :: "state \<Rightarrow> address \<Rightarrow> nat \<Rightarrow> nat \<Rightarrow> TokenDetails list \<Rightarrow> error + TokenDetails list" where
  "fill_loop s cr i index tokens =
     (if i < length (allSupportedTokens s)
      then (if creator (tokenDetails s (allSupportedTokens s ! i)) = cr
            then (if index < length tokens
                  then fill_loop s cr (i + 1) (index + 1)
                         (tokens[index := tokenDetails s (allSupportedTokens s ! i)])
                  else Inl IndexOutOfBounds)
            else fill_loop s cr (i + 1) index tokens)
      else Inr tokens)"
  by pat_completeness auto
termination
  by (relation "measure (\<lambda>(s, cr, i, index, tokens). length (allSupportedTokens s) - i)") auto

definition getTokenCreatedBy :: "state \<Rightarrow> address \<Rightarrow> error + TokenDetails list" where
  "getTokenCreatedBy s cr =
     (let count = count_loop s cr 0 0;
          tokens = replicate count zeroDetails
      in fill_loop s cr 0 0 tokens)"

text \<open>\<open>getAllTokens\<close>.\<close>

function all_loop :: "state \<Rightarrow> nat \<Rightarrow> nat \<Rightarrow> TokenDetails list \<Rightarrow> error + TokenDetails list" where
  "all_loop s len i tokens =
     (if i < len
      then (if i < length (allSupportedTokens s) \<and> i < length tokens
            then all_loop s len (i + 1) (tokens[i := tokenDetails s (allSupportedTokens s ! i)])
            else Inl IndexOutOfBounds)
      else Inr tokens)"
  by pat_completeness auto
termination
  by (relation "measure (\<lambda>(s, len, i, tokens). len - i)") auto

definition getAllTokens :: "state \<Rightarrow> error + TokenDetails list" where
  "getAllTokens s =
     (let len = length (allSupportedTokens s) in all_loop s len 0 (replicate len zeroDetails))"

text \<open>The equations of the loops are unfolded one step at a time, by hand.\<close>

declare count_loop.simps [simp del] fill_loop.simps [simp del] all_loop.simps [simp del]

subsection \<open>Payments by the contract and calls back into it\<close>

text \<open>The host moves the value attached to a payable call from the sender to the contract
  before the body runs, and refuses the call when the sender does not hold the value.\<close>

definition pay_in :: "state \<Rightarrow> address \<Rightarrow> uint256 \<Rightarrow> error + state" where
  "pay_in s sender val =
     (if eth s sender < unat val then Inl InsufficientFunds
      else let e1 = (eth s)(sender := eth s sender - unat val)
           in Inr (s\<lparr>eth := e1(this s := e1 (this s) + unat val)\<rparr>))"

text \<open>A call back into the marketplace by the address \<open>who\<close>, made while \<open>who\<close> is being
  paid. The first argument is \<open>buyToken\<close> as the host runs it in a nested call.\<close>

fun reenter :: "buy_fn \<Rightarrow> state \<Rightarrow> address \<Rightarrow> reentry \<Rightarrow> error + state" where
  "reenter nested s who (ReCreateICOSale tok pr) = createICOSale s who tok pr"
| "reenter nested s who (ReBuyToken val tok amount) =
     (case pay_in s who val of
        Inl e \<Rightarrow> Inl e
      | Inr s1 \<Rightarrow> nested s1 who val tok amount)"
| "reenter nested s who (ReWidthdrawToken tok amount) = widthdrawToken s who tok amount"

text \<open>The calls of the paid code, in order. A call that reverts leaves the state as it was
  before that call; after a \<open>Try\<close> the code goes on, after a \<open>Must\<close> it fails as a whole
  (\<open>None\<close>).\<close>

fun callbacks :: "buy_fn \<Rightarrow> state \<Rightarrow> address \<Rightarrow> step list \<Rightarrow> state option" where
  "callbacks nested s who [] = Some s"
| "callbacks nested s who (Try c # rest) =
     (case reenter nested s who c of
        Inl e \<Rightarrow> callbacks nested s who rest
      | Inr s' \<Rightarrow> callbacks nested s' who rest)"
| "callbacks nested s who (Must c # rest) =
     (case reenter nested s who c of
        Inl e \<Rightarrow> None
      | Inr s' \<Rightarrow> callbacks nested s' who rest)"

text \<open>\<open>to.call{value: v}("")\<close> made by the contract. The call reports failure (\<open>None\<close>) when
  the recipient is the marketplace itself (its \<open>receive\<close> reverts), when the contract does
  not hold \<open>v\<close>, when the recipient rejects the payment and when the recipient's code
  fails. Otherwise the value moves and the code of the recipient runs.\<close>

definition send_value :: "buy_fn \<Rightarrow> state \<Rightarrow> address \<Rightarrow> uint256 \<Rightarrow> state option" where
  "send_value nested s to v =
     (if to = this s \<or> eth s (this s) < unat v then None
      else (case on_payment s to of
              Rejects \<Rightarrow> None
            | Accepts steps \<Rightarrow>
                callbacks nested
                  (s\<lparr>eth := (eth s)(this s := eth s (this s) - unat v,
                                    to := eth s to + unat v)\<rparr>) to steps))"

text \<open>\<open>buyToken\<close> as the host runs it in a call nested in a payment. The resources of the
  host (gas, call depth) bound the nesting: \<open>n\<close> is the number of purchases that may still
  be nested one in the other, and a purchase beyond it fails.\<close>

primrec buy_nested :: "nat \<Rightarrow> buy_fn" where
  "buy_nested 0 = (\<lambda>s sender val tok amount. Inl OutOfGas)"
| "buy_nested (Suc n) = buyToken (send_value (buy_nested n))"

subsection \<open>Transactions\<close>

text \<open>
  A transaction is a call of one of the state-changing entry points by a sender. The
  functions that are not payable carry no value. The host runs each call atomically: it
  first moves the value attached to a payable call from the sender to the contract, then
  runs the body; when the call reverts, the state before the call is kept, the payment
  included. The first argument of \<open>execute\<close> is the number of purchases that the resources
  of the host allow to be nested in the transaction.
\<close>

datatype tx =
    CreateICOSale address address uint256
  | BuyToken address uint256 address uint256
  | WidthdrawToken address address uint256
  | Receive address uint256

fun execute :: "nat \<Rightarrow> state \<Rightarrow> tx \<Rightarrow> error + state" where
  "execute n s (CreateICOSale sender tok pr) = createICOSale s sender tok pr"
| "execute n s (BuyToken sender val tok amount) =
     (case pay_in s sender val of
        Inl e \<Rightarrow> Inl e
      | Inr s1 \<Rightarrow> buyToken (send_value (buy_nested n)) s1 sender val tok amount)"
| "execute n s (WidthdrawToken sender tok amount) = widthdrawToken s sender tok amount"
| "execute n s (Receive sender val) =
     (case pay_in s sender val of
        Inl e \<Rightarrow> Inl e
      | Inr s1 \<Rightarrow> receive s1 sender val)"

text \<open>The state after a transaction: the one the call leaves, or the one before it when the
  call reverted.\<close>

definition transact :: "nat \<Rightarrow> state \<Rightarrow> tx \<Rightarrow> state" where
  "transact n s t = (case execute n s t of Inl e \<Rightarrow> s | Inr s' \<Rightarrow> s')"

text \<open>A sequence of transactions, in order.\<close>

fun run :: "nat \<Rightarrow> state \<Rightarrow> tx list \<Rightarrow> state" where
  "run n s [] = s"
| "run n s (t # ts) = run n (transact n s t) ts"

text \<open>
  The states the contract can be in: it is deployed by its constructor, its entry points
  are called, and between calls the rest of the host changes freely (payments between
  other parties, deposits of an asset into the marketplace, new assets, new code), without
  touching the storage of the contract.
\<close>

inductive reachable :: "state \<Rightarrow> bool" where
  deployed: "reachable (constructor self sender e react ast)"
| called: "reachable s \<Longrightarrow> reachable (transact n s t)"
| host: "reachable s \<Longrightarrow> reachable (s\<lparr>eth := e, on_payment := react, assets := ast\<rparr>)"

text \<open>The registry: the part of the state that holds the listings and their index.\<close>

definition registry :: "state \<Rightarrow> (address \<Rightarrow> TokenDetails) \<times> address list" where
  "registry s = (tokenDetails s, allSupportedTokens s)"

text \<open>Whether a transaction is a registration of the token \<open>tok\<close>.\<close>

fun registers :: "address \<Rightarrow> tx \<Rightarrow> bool" where
  "registers tok (CreateICOSale sender tok' pr) = (tok' = tok)"
| "registers tok _ = False"

text \<open>Whether a call back is a registration of the token \<open>tok\<close>, and whether it is a
  registration at all.\<close>

fun reregisters :: "address \<Rightarrow> reentry \<Rightarrow> bool" where
  "reregisters tok (ReCreateICOSale tok' pr) = (tok' = tok)"
| "reregisters tok _ = False"

fun is_registration :: "reentry \<Rightarrow> bool" where
  "is_registration (ReCreateICOSale tok pr) = True"
| "is_registration _ = False"

text \<open>The calls back into the marketplace that a reaction to a payment contains.\<close>

fun step_call :: "step \<Rightarrow> reentry" where
  "step_call (Try c) = c"
| "step_call (Must c) = c"

fun reaction_calls :: "reaction \<Rightarrow> reentry list" where
  "reaction_calls Rejects = []"
| "reaction_calls (Accepts steps) = map step_call steps"

text \<open>The listings created by \<open>cr\<close>, as the specification describes the single-pass
  formulation: one pass over the index sequence that keeps, in order, the listing of each
  identifier whose creator is \<open>cr\<close>.\<close>

definition listingsByCreator_single_pass :: "state \<Rightarrow> address \<Rightarrow> TokenDetails list" where
  "listingsByCreator_single_pass s cr =
     map (tokenDetails s) (filter (\<lambda>t. creator (tokenDetails s t) = cr) (allSupportedTokens s))"

subsection \<open>Invariants of nested execution\<close>

text \<open>
  A property \<open>J\<close> of states is kept by everything that happens inside a transaction when it
  does not depend on the balances, the assets and the event log, when every registration
  that satisfies \<open>ok\<close> keeps it, and when in a state with \<open>J\<close> the code of every address
  makes only calls that satisfy \<open>ok\<close>.
\<close>

definition invariant :: "(reentry \<Rightarrow> bool) \<Rightarrow> (state \<Rightarrow> bool) \<Rightarrow> bool" where
  "invariant ok J =
     ((\<forall>s e. J s \<longrightarrow> J (s\<lparr>eth := e\<rparr>)) \<and>
      (\<forall>s a. J s \<longrightarrow> J (s\<lparr>assets := a\<rparr>)) \<and>
      (\<forall>s ev. J s \<longrightarrow> J (s\<lparr>events := ev\<rparr>)) \<and>
      (\<forall>s who t p s'. J s \<longrightarrow> ok (ReCreateICOSale t p) \<longrightarrow>
          createICOSale s who t p = Inr s' \<longrightarrow> J s') \<and>
      (\<forall>s a x. J s \<longrightarrow> x \<in> set (reaction_calls (on_payment s a)) \<longrightarrow> ok x))"

subsection \<open>Example states\<close>

text \<open>
  An asset \<open>TokenA\<close> at address 10, of which the marketplace (address 16) holds
  \<open>5 * 10^18\<close> base units, and an asset \<open>TokenB\<close> at address 11; every address holds 1000
  of native currency. The marketplace is deployed by address 1, and the host allows 1024
  nested purchases.

  In \<open>fresh\<close> no address has code: each accepts payments and calls nothing. In \<open>market\<close>
  address 1 has listed \<open>TokenA\<close> at price 100, in \<open>giveaway\<close> at price 0 and in \<open>pricey\<close> at
  price \<open>2^255\<close>.

  In \<open>reentrant\<close> \<open>TokenA\<close> is listed at price 100 by address 17, a contract whose
  \<open>receive\<close> calls \<open>createICOSale\<close> for \<open>TokenA\<close> at price 999. In \<open>sidelisting\<close> it is
  listed at price 100 by address 18, a contract whose \<open>receive\<close> lists \<open>TokenB\<close> at price 5.
\<close>

definition assetA :: erc20 where
  "assetA = \<lparr>tname = ''TokenA'', tsymbol = ''TKA'', balances = (\<lambda>_. 0)(16 := 5 * 10 ^ 18)\<rparr>"

definition assetB :: erc20 where
  "assetB = \<lparr>tname = ''TokenB'', tsymbol = ''TKB'', balances = (\<lambda>_. 0)\<rparr>"

definition deployed_with :: "(address \<Rightarrow> reaction) \<Rightarrow> state" where
  "deployed_with react =
     constructor 16 1 (\<lambda>_. 1000) react (Map.empty(10 \<mapsto> assetA, 11 \<mapsto> assetB))"

definition fresh :: state where
  "fresh = deployed_with (\<lambda>_. Accepts [])"

definition market :: state where
  "market = transact 1024 fresh (CreateICOSale 1 10 100)"

definition giveaway :: state where
  "giveaway = transact 1024 fresh (CreateICOSale 1 10 0)"

definition pricey :: state where
  "pricey = transact 1024 fresh (CreateICOSale 1 10 (2 ^ 255))"

definition reentrant :: state where
  "reentrant =
     transact 1024 (deployed_with ((\<lambda>_. Accepts [])(17 := Accepts [Must (ReCreateICOSale 10 999)])))
       (CreateICOSale 17 10 100)"

definition sidelisting :: state where
  "sidelisting =
     transact 1024 (deployed_with ((\<lambda>_. Accepts [])(18 := Accepts [Try (ReCreateICOSale 11 5)])))
       (CreateICOSale 18 10 100)"

section \<open>Auxiliary facts\<close>

subsection \<open>Checked multiplication\<close>

lemma mul_div_cancel_word:
  fixes x y :: uint256
  assumes "unat x * unat y < 2 ^ 256" "y \<noteq> 0"
  shows "(x * y) div y = x"
proof -
  have "unat (x * y) = unat x * unat y"
    using assms(1) by (simp add: unat_word_ariths)
  moreover have "unat y \<noteq> 0" using assms(2) by (simp add: unat_eq_0)
  ultimately have "unat ((x * y) div y) = unat x"
    by (simp add: unat_div)
  then show ?thesis by (simp add: word_unat_eq_iff)
qed

lemma mul_div_overflow_word:
  fixes x y :: uint256
  assumes "\<not> unat x * unat y < 2 ^ 256"
  shows "(x * y) div y \<noteq> x"
proof
  assume eq: "(x * y) div y = x"
  have "unat ((x * y) div y) * unat y \<le> unat (x * y)"
    by (simp add: unat_div)
  then have "unat x * unat y \<le> unat (x * y)" using eq by simp
  moreover have "unat (x * y) < 2 ^ 256"
    using unsigned_less [of "x * y"] by simp
  ultimately show False using assms by simp
qed

lemma multiply_eq:
  "multiply x y = (if unat x * unat y < 2 ^ 256 then Inr (x * y) else Inl ArithmeticOverflow)"
  by (auto simp: multiply_def checked_mul_def mul_div_cancel_word)

lemma multiply_overflow_iff:
  "(multiply x y = Inl ArithmeticOverflow) = (y \<noteq> 0 \<and> (x * y) div y \<noteq> x)"
proof (cases "unat x * unat y < 2 ^ 256")
  case True
  have "y \<noteq> 0 \<Longrightarrow> (x * y) div y = x"
    using mul_div_cancel_word [OF True] .
  with True show ?thesis
    by (auto simp: multiply_eq)
next
  case False
  then have "y \<noteq> 0" by (auto simp: unat_eq_0)
  with False show ?thesis
    by (simp add: multiply_eq mul_div_overflow_word)
qed

subsection \<open>What each step leaves alone\<close>

lemma erc20_transfer_frame:
  assumes "erc20_transfer s tok to amt = Some s1"
  shows "tokenDetails s1 = tokenDetails s" "allSupportedTokens s1 = allSupportedTokens s"
    "owner s1 = owner s" "this s1 = this s" "events s1 = events s"
    "on_payment s1 = on_payment s" "eth s1 = eth s"
  using assms by (auto simp: erc20_transfer_def split: option.splits if_splits)

lemma pay_in_frame:
  assumes "pay_in s sender val = Inr s1"
  shows "tokenDetails s1 = tokenDetails s" "allSupportedTokens s1 = allSupportedTokens s"
    "owner s1 = owner s" "this s1 = this s" "events s1 = events s"
    "on_payment s1 = on_payment s" "assets s1 = assets s"
  using assms by (auto simp: pay_in_def Let_def split: if_splits)

lemma widthdrawToken_frame:
  assumes "widthdrawToken s sender tok amount = Inr s'"
  shows "tokenDetails s' = tokenDetails s" "allSupportedTokens s' = allSupportedTokens s"
    "owner s' = owner s" "this s' = this s" "on_payment s' = on_payment s" "eth s' = eth s"
  using assms
  by (auto simp: widthdrawToken_def erc20_transfer_frame
           split: if_splits option.splits)

subsection \<open>Properties kept by nested execution\<close>

lemma invariantI:
  assumes "\<And>s e. J s \<Longrightarrow> J (s\<lparr>eth := e\<rparr>)"
    and "\<And>s a. J s \<Longrightarrow> J (s\<lparr>assets := a\<rparr>)"
    and "\<And>s ev. J s \<Longrightarrow> J (s\<lparr>events := ev\<rparr>)"
    and "\<And>s who t p s'. J s \<Longrightarrow> ok (ReCreateICOSale t p) \<Longrightarrow>
           createICOSale s who t p = Inr s' \<Longrightarrow> J s'"
    and "\<And>s a x. J s \<Longrightarrow> x \<in> set (reaction_calls (on_payment s a)) \<Longrightarrow> ok x"
  shows "invariant ok J"
  unfolding invariant_def using assms by blast

lemma invariant_eth: "invariant ok J \<Longrightarrow> J s \<Longrightarrow> J (s\<lparr>eth := e\<rparr>)"
  and invariant_assets: "invariant ok J \<Longrightarrow> J s \<Longrightarrow> J (s\<lparr>assets := a\<rparr>)"
  and invariant_events: "invariant ok J \<Longrightarrow> J s \<Longrightarrow> J (s\<lparr>events := ev\<rparr>)"
  and invariant_create:
    "invariant ok J \<Longrightarrow> J s \<Longrightarrow> ok (ReCreateICOSale t p) \<Longrightarrow>
       createICOSale s who t p = Inr s' \<Longrightarrow> J s'"
  and invariant_calls:
    "invariant ok J \<Longrightarrow> J s \<Longrightarrow> x \<in> set (reaction_calls (on_payment s a')) \<Longrightarrow> ok x"
  unfolding invariant_def by blast+

lemma invariant_pay_in:
  assumes "invariant ok J" and "J s" and "pay_in s sender val = Inr s1"
  shows "J s1"
proof -
  from assms(3) have "s1 = s\<lparr>eth := ((eth s)(sender := eth s sender - unat val))
      (this s := ((eth s)(sender := eth s sender - unat val)) (this s) + unat val)\<rparr>"
    by (simp add: pay_in_def Let_def split: if_splits)
  then show ?thesis using invariant_eth [OF assms(1,2)] by simp
qed

lemma invariant_transfer:
  assumes "invariant ok J" and "J s" and "erc20_transfer s tok to amt = Some s1"
  shows "J s1"
proof -
  from assms(3) obtain a where "s1 = s\<lparr>assets := a\<rparr>"
    by (auto simp: erc20_transfer_def split: option.splits if_splits)
  with invariant_assets [OF assms(1,2)] show ?thesis by simp
qed

lemma invariant_widthdraw:
  assumes "invariant ok J" and "J s" and "widthdrawToken s sender tok amount = Inr s'"
  shows "J s'"
proof -
  from assms(3) obtain s1 where
    t: "erc20_transfer s tok sender amount = Some s1" and
    s': "s' = s1\<lparr>events := events s1 @ [TokenWidthdraw tok sender amount]\<rparr>"
    by (auto simp: widthdrawToken_def split: if_splits option.splits)
  from invariant_transfer [OF assms(1,2) t] have "J s1" .
  then show ?thesis unfolding s' by (rule invariant_events [OF assms(1)])
qed

lemma invariant_buyToken:
  assumes inv: "invariant ok J"
    and pay: "\<forall>s to v s1. J s \<longrightarrow> call_value s to v = Some s1 \<longrightarrow> J s1"
    and "J s" and "buyToken call_value s sender val tok amount = Inr s'"
  shows "J s'"
proof -
  from assms(4) obtain s1 s2 scaled where
    p: "call_value s (creator (tokenDetails s tok)) val = Some s1" and
    t: "erc20_transfer s1 tok sender scaled = Some s2" and
    s': "s' = s2\<lparr>events := events s2 @ [TokenTransferred tok sender amount]\<rparr>"
    by (auto simp: buyToken_def Let_def split: if_splits sum.splits option.splits)
  from pay assms(3) p have "J s1" by blast
  from invariant_transfer [OF inv this t] have "J s2" .
  then show ?thesis unfolding s' by (rule invariant_events [OF inv])
qed

lemma invariant_reenter:
  assumes inv: "invariant ok J"
    and nested: "\<forall>s sender v t a s'. J s \<longrightarrow> nested s sender v t a = Inr s' \<longrightarrow> J s'"
    and "ok c" and "J s" and "reenter nested s who c = Inr s'"
  shows "J s'"
proof (cases c)
  case (ReCreateICOSale t p)
  with assms(3-5) invariant_create [OF inv] show ?thesis by auto
next
  case (ReBuyToken v t a)
  with assms(5) obtain s1 where
    "pay_in s who v = Inr s1" "nested s1 who v t a = Inr s'"
    by (auto split: sum.splits)
  with invariant_pay_in [OF inv assms(4)] nested show ?thesis by blast
next
  case (ReWidthdrawToken t a)
  with assms(5) invariant_widthdraw [OF inv assms(4)] show ?thesis by auto
qed

lemma invariant_callbacks:
  assumes inv: "invariant ok J"
    and nested: "\<forall>s sender v t a s'. J s \<longrightarrow> nested s sender v t a = Inr s' \<longrightarrow> J s'"
  shows "\<forall>st \<in> set steps. ok (step_call st) \<Longrightarrow> J s \<Longrightarrow>
         callbacks nested s who steps = Some s' \<Longrightarrow> J s'"
proof (induction steps arbitrary: s)
  case Nil
  then show ?case by simp
next
  case (Cons st rest)
  from Cons.prems(1) have ok: "ok (step_call st)" and rest: "\<forall>st \<in> set rest. ok (step_call st)"
    by simp_all
  have step: "J s1" if "reenter nested s who (step_call st) = Inr s1" for s1
    using invariant_reenter [OF inv nested ok Cons.prems(2) that] .
  show ?case
  proof (cases "reenter nested s who (step_call st)")
    case (Inl e)
    with Cons.prems(2,3) Cons.IH [OF rest] show ?thesis
      by (cases st) auto
  next
    case (Inr s1)
    with Cons.prems(3) Cons.IH [OF rest step [OF Inr]] show ?thesis
      by (cases st) auto
  qed
qed

lemma invariant_send_value:
  assumes inv: "invariant ok J"
    and nested: "\<forall>s sender v t a s'. J s \<longrightarrow> nested s sender v t a = Inr s' \<longrightarrow> J s'"
    and "J s" and "send_value nested s to v = Some s1"
  shows "J s1"
proof -
  from assms(4) obtain steps where
    r: "on_payment s to = Accepts steps" and
    c: "callbacks nested
          (s\<lparr>eth := (eth s)(this s := eth s (this s) - unat v, to := eth s to + unat v)\<rparr>)
          to steps = Some s1"
    by (auto simp: send_value_def split: if_splits reaction.splits)
  have "\<forall>st \<in> set steps. ok (step_call st)"
    using invariant_calls [OF inv assms(3), of _ to] r by simp
  from invariant_callbacks [OF inv nested this invariant_eth [OF inv assms(3)] c]
  show ?thesis .
qed

lemma invariant_buy_nested:
  assumes inv: "invariant ok J"
  shows "\<forall>s sender val tok amount s'.
           J s \<longrightarrow> buy_nested n s sender val tok amount = Inr s' \<longrightarrow> J s'"
proof (induction n)
  case 0
  then show ?case by simp
next
  case (Suc n)
  have pay: "\<forall>s to v s1. J s \<longrightarrow> send_value (buy_nested n) s to v = Some s1 \<longrightarrow> J s1"
    using invariant_send_value [OF inv Suc.IH] by blast
  show ?case
    using invariant_buyToken [OF inv pay] by simp
qed

lemma invariant_execute:
  assumes inv: "invariant ok J" and "J s" and "execute n s t = Inr s'"
    and "\<And>sender tok pr. t = CreateICOSale sender tok pr \<Longrightarrow> ok (ReCreateICOSale tok pr)"
  shows "J s'"
proof (cases t)
  case (CreateICOSale sender tok pr)
  with assms(3,4) invariant_create [OF inv assms(2)] show ?thesis by auto
next
  case (BuyToken sender val tok amount)
  with assms(3) obtain s1 where
    "pay_in s sender val = Inr s1" "buy_nested (Suc n) s1 sender val tok amount = Inr s'"
    by (auto split: sum.splits)
  with invariant_pay_in [OF inv assms(2)] invariant_buy_nested [OF inv, of "Suc n"]
  show ?thesis by blast
next
  case (WidthdrawToken sender tok amount)
  with assms(3) invariant_widthdraw [OF inv assms(2)] show ?thesis by auto
next
  case (Receive sender val)
  with assms(3) show ?thesis by (auto simp: receive_def split: sum.splits)
qed

lemma invariant_transact:
  assumes "invariant ok J" and "J s"
    and "\<And>sender tok pr. t = CreateICOSale sender tok pr \<Longrightarrow> ok (ReCreateICOSale tok pr)"
  shows "J (transact n s t)"
proof (cases "execute n s t")
  case (Inl e)
  with assms(2) show ?thesis by (simp add: transact_def)
next
  case (Inr s')
  from invariant_execute [OF assms(1,2) Inr assms(3)] Inr show ?thesis
    by (simp add: transact_def)
qed

subsection \<open>Registrations and the invariants of the reachable states\<close>

lemma createICOSale_eq:
  "createICOSale s sender tok pr =
     (case assets s tok of
        None \<Rightarrow> Inl ExternalCallFailed
      | Some a \<Rightarrow> Inr (s\<lparr>tokenDetails := (tokenDetails s)(tok :=
                    \<lparr>token = tok, supported = True, price = pr, creator = sender,
                     name = tname a, symbol = tsymbol a\<rparr>),
                 allSupportedTokens := allSupportedTokens s @ [tok],
                 events := events s @ [TokenAdded tok pr sender (tname a) (tsymbol a)]\<rparr>))"
  by (simp add: createICOSale_def Let_def split: option.splits)

lemma invariant_index:
  "invariant (\<lambda>_. True)
     (\<lambda>s. \<forall>t. supported (tokenDetails s t) = (t \<in> set (allSupportedTokens s)))"
proof (rule invariantI)
  fix s who t p s'
  assume "\<forall>t. supported (tokenDetails s t) = (t \<in> set (allSupportedTokens s))"
    and "createICOSale s who t p = Inr s'"
  then show "\<forall>t. supported (tokenDetails s' t) = (t \<in> set (allSupportedTokens s'))"
    by (auto simp: createICOSale_eq split: option.splits if_splits)
qed simp_all

lemma invariant_unlisted:
  "invariant (\<lambda>_. True) (\<lambda>s. \<forall>t. \<not> supported (tokenDetails s t) \<longrightarrow> tokenDetails s t = zeroDetails)"
proof (rule invariantI)
  fix s who t p s'
  assume "\<forall>t. \<not> supported (tokenDetails s t) \<longrightarrow> tokenDetails s t = zeroDetails"
    and "createICOSale s who t p = Inr s'"
  then show "\<forall>t. \<not> supported (tokenDetails s' t) \<longrightarrow> tokenDetails s' t = zeroDetails"
    by (auto simp: createICOSale_eq split: option.splits)
qed simp_all

lemma invariant_listing:
  assumes "\<forall>a. \<forall>x \<in> set (reaction_calls (react a)). \<not> reregisters tok x"
  shows "invariant (\<lambda>x. \<not> reregisters tok x) (\<lambda>s. on_payment s = react \<and> tokenDetails s tok = d)"
proof (rule invariantI)
  fix s who t p s'
  assume "on_payment s = react \<and> tokenDetails s tok = d" and "\<not> reregisters tok (ReCreateICOSale t p)"
    and "createICOSale s who t p = Inr s'"
  then show "on_payment s' = react \<and> tokenDetails s' tok = d"
    by (auto simp: createICOSale_eq split: option.splits)
next
  fix s :: state and a x
  assume "on_payment s = react \<and> tokenDetails s tok = d"
    and "x \<in> set (reaction_calls (on_payment s a))"
  with assms show "\<not> reregisters tok x" by blast
qed simp_all

lemma invariant_registry:
  assumes "\<forall>a. \<forall>x \<in> set (reaction_calls (react a)). \<not> is_registration x"
  shows "invariant (\<lambda>x. \<not> is_registration x) (\<lambda>s. on_payment s = react \<and> registry s = r)"
proof (rule invariantI)
  fix s :: state and a x
  assume "on_payment s = react \<and> registry s = r"
    and "x \<in> set (reaction_calls (on_payment s a))"
  with assms show "\<not> is_registration x" by blast
qed (simp_all add: registry_def)

lemma reachable_index:
  "reachable s \<Longrightarrow> supported (tokenDetails s tok) = (tok \<in> set (allSupportedTokens s))"
proof -
  assume "reachable s"
  then have "\<forall>t. supported (tokenDetails s t) = (t \<in> set (allSupportedTokens s))"
  proof (induction rule: reachable.induct)
    case (deployed self sender e react ast)
    then show ?case by (simp add: constructor_def zeroDetails_def)
  next
    case (called s n t)
    have "(\<lambda>s. \<forall>t. supported (tokenDetails s t) = (t \<in> set (allSupportedTokens s)))
        (transact n s t)"
      by (rule invariant_transact [OF invariant_index]) (use called.IH in simp_all)
    then show ?case by simp
  next
    case (host s e react ast)
    then show ?case by simp
  qed
  then show ?thesis by simp
qed

lemma reachable_unlisted:
  "reachable s \<Longrightarrow> \<not> supported (tokenDetails s tok) \<Longrightarrow> tokenDetails s tok = zeroDetails"
proof -
  assume "reachable s"
  then have "\<forall>t. \<not> supported (tokenDetails s t) \<longrightarrow> tokenDetails s t = zeroDetails"
  proof (induction rule: reachable.induct)
    case (deployed self sender e react ast)
    then show ?case by (simp add: constructor_def)
  next
    case (called s n t)
    have "(\<lambda>s. \<forall>t. \<not> supported (tokenDetails s t) \<longrightarrow> tokenDetails s t = zeroDetails)
        (transact n s t)"
      by (rule invariant_transact [OF invariant_unlisted]) (use called.IH in simp_all)
    then show ?case by simp
  next
    case (host s e react ast)
    then show ?case by simp
  qed
  then show "\<not> supported (tokenDetails s tok) \<Longrightarrow> tokenDetails s tok = zeroDetails" by simp
qed

subsection \<open>The two loops of the filtered enumeration\<close>

lemma count_loop_filter:
  "count_loop s cr i n =
     n + length (filter (\<lambda>t. creator (tokenDetails s t) = cr) (drop i (allSupportedTokens s)))"
proof (induction s cr i n rule: count_loop.induct)
  case (1 s cr i count)
  show ?case
  proof (cases "i < length (allSupportedTokens s)")
    case True
    then have "drop i (allSupportedTokens s) =
        allSupportedTokens s ! i # drop (Suc i) (allSupportedTokens s)"
      by (simp add: Cons_nth_drop_Suc)
    with True "1.IH" show ?thesis
      by (subst count_loop.simps) simp
  next
    case False
    then show ?thesis
      by (subst count_loop.simps) simp
  qed
qed

lemma fill_loop_filter:
  "index + length (filter (\<lambda>t. creator (tokenDetails s t) = cr) (drop i (allSupportedTokens s)))
      \<le> length tokens \<Longrightarrow>
   fill_loop s cr i index tokens =
     Inr (take index tokens @
          map (tokenDetails s)
            (filter (\<lambda>t. creator (tokenDetails s t) = cr) (drop i (allSupportedTokens s))) @
          drop (index +
                length (filter (\<lambda>t. creator (tokenDetails s t) = cr) (drop i (allSupportedTokens s))))
            tokens)"
proof (induction s cr i index tokens rule: fill_loop.induct)
  case (1 s cr i index tokens)
  let ?xs = "allSupportedTokens s"
  show ?case
  proof (cases "i < length ?xs")
    case False
    then show ?thesis
      by (subst fill_loop.simps) simp
  next
    case True
    then have dr: "drop i ?xs = ?xs ! i # drop (Suc i) ?xs"
      by (simp add: Cons_nth_drop_Suc)
    show ?thesis
    proof (cases "creator (tokenDetails s (?xs ! i)) = cr")
      case False
      with True dr "1.IH"(2) "1.prems" show ?thesis
        by (subst fill_loop.simps) simp
    next
      case match: True
      from "1.prems" dr match have room: "index < length tokens" by simp
      let ?tokens' = "tokens[index := tokenDetails s (?xs ! i)]"
      have "fill_loop s cr (i + 1) (index + 1) ?tokens' =
          Inr (take (index + 1) ?tokens' @
               map (tokenDetails s)
                 (filter (\<lambda>t. creator (tokenDetails s t) = cr) (drop (i + 1) ?xs)) @
               drop (index + 1 +
                     length (filter (\<lambda>t. creator (tokenDetails s t) = cr) (drop (i + 1) ?xs)))
                 ?tokens')"
        using "1.IH"(1) [OF True match room] "1.prems" dr match by simp
      moreover have "take (index + 1) ?tokens' = take index tokens @ [tokenDetails s (?xs ! i)]"
        using room by (simp add: take_Suc_conv_app_nth)
      moreover have "drop (index + 1 + k) ?tokens' = drop (index + 1 + k) tokens" for k
        by simp
      ultimately show ?thesis
        using True match room dr
        by (subst fill_loop.simps) simp
    qed
  qed
qed

subsection \<open>Evaluation of the example states\<close>

lemma unat_ten18: "unat ((10::uint256) ^ 18) = 10 ^ 18"
  by simp

lemma transact_create:
  "transact n s (CreateICOSale sender tok pr) =
     (case assets s tok of
        None \<Rightarrow> s
      | Some a \<Rightarrow> s\<lparr>tokenDetails := (tokenDetails s)(tok :=
                    \<lparr>token = tok, supported = True, price = pr, creator = sender,
                     name = tname a, symbol = tsymbol a\<rparr>),
                 allSupportedTokens := allSupportedTokens s @ [tok],
                 events := events s @ [TokenAdded tok pr sender (tname a) (tsymbol a)]\<rparr>)"
  by (simp add: transact_def createICOSale_eq split: option.splits)

lemma transact_receive: "transact n s (Receive sender val) = s"
  by (simp add: transact_def receive_def split: sum.splits)

lemma deployed_fields:
  "tokenDetails (deployed_with react) = (\<lambda>_. zeroDetails)"
  "allSupportedTokens (deployed_with react) = []"
  "this (deployed_with react) = 16" "eth (deployed_with react) = (\<lambda>_. 1000)"
  "on_payment (deployed_with react) = react"
  "assets (deployed_with react) = Map.empty(10 \<mapsto> assetA, 11 \<mapsto> assetB)"
  "events (deployed_with react) = []" "owner (deployed_with react) = 1"
  by (simp_all add: deployed_with_def constructor_def)

lemma listed_fields:
  "tokenDetails (transact n (deployed_with react) (CreateICOSale who 10 pr)) =
     (\<lambda>_. zeroDetails)(10 := \<lparr>token = 10, supported = True, price = pr, creator = who,
                              name = ''TokenA'', symbol = ''TKA''\<rparr>)"
  "allSupportedTokens (transact n (deployed_with react) (CreateICOSale who 10 pr)) = [10]"
  "this (transact n (deployed_with react) (CreateICOSale who 10 pr)) = 16"
  "eth (transact n (deployed_with react) (CreateICOSale who 10 pr)) = (\<lambda>_. 1000)"
  "on_payment (transact n (deployed_with react) (CreateICOSale who 10 pr)) = react"
  "assets (transact n (deployed_with react) (CreateICOSale who 10 pr)) =
     Map.empty(10 \<mapsto> assetA, 11 \<mapsto> assetB)"
  by (simp_all add: transact_create deployed_fields assetA_def)

lemma reachable_deployed: "reachable (deployed_with react)"
  unfolding deployed_with_def by (rule reachable.deployed)

lemma reachable_listed: "reachable (transact n (deployed_with react) t)"
  by (rule reachable.called [OF reachable_deployed])

subsection \<open>Successful purchases and withdrawals\<close>

lemma ledger_move_apply:
  "from \<noteq> to \<Longrightarrow> ledger_move b from to amt to = b to + amt"
  "from \<noteq> to \<Longrightarrow> ledger_move b from to amt from = b from - amt"
  "h \<noteq> from \<Longrightarrow> h \<noteq> to \<Longrightarrow> ledger_move b from to amt h = b h"
  by (simp_all add: ledger_move_def Let_def)

lemma send_value_plain:
  assumes "on_payment s to = Accepts []" and "to \<noteq> this s" and "unat v \<le> eth s (this s)"
  shows "send_value nested s to v =
     Some (s\<lparr>eth := (eth s)(this s := eth s (this s) - unat v, to := eth s to + unat v)\<rparr>)"
  using assms by (simp add: send_value_def)

lemma buyToken_success:
  assumes "supported (tokenDetails s tok)" and "amount > 0"
    and "unat (price (tokenDetails s tok)) * unat amount < 2 ^ 256"
    and "val = price (tokenDetails s tok) * amount"
    and "call_value s (creator (tokenDetails s tok)) val = Some s1"
    and "unat amount * 10 ^ 18 < 2 ^ 256"
    and "assets s1 tok = Some a1"
    and "amount * 10 ^ 18 \<le> balances a1 (this s1)"
  shows "buyToken call_value s sender val tok amount =
     Inr (s1\<lparr>assets := (assets s1)(tok \<mapsto>
                a1\<lparr>balances := ledger_move (balances a1) (this s1) sender (amount * 10 ^ 18)\<rparr>),
             events := events s1 @ [TokenTransferred tok sender amount]\<rparr>)"
proof -
  have cost: "multiply (price (tokenDetails s tok)) amount = Inr val"
    using assms(3,4) by (simp add: multiply_eq)
  have scaled: "checked_mul amount (10 ^ 18) = Inr (amount * 10 ^ 18)"
    using assms(6) by (simp add: checked_mul_def)
  show ?thesis
    using assms(1,2,5,7,8) cost scaled
    by (simp add: buyToken_def Let_def erc20_transfer_def not_less)
qed

lemma buyToken_assets:
  assumes "buyToken call_value s sender val tok amount = Inr s'"
  shows "\<exists>s1 a1. call_value s (creator (tokenDetails s tok)) val = Some s1 \<and>
      assets s1 tok = Some a1 \<and>
      assets s' tok =
        Some (a1\<lparr>balances := ledger_move (balances a1) (this s1) sender (amount * 10 ^ 18)\<rparr>)"
  using assms
  by (auto simp: buyToken_def Let_def erc20_transfer_def checked_mul_def
           split: if_splits sum.splits option.splits)

lemma widthdrawToken_success:
  assumes "supported (tokenDetails s tok)" and "sender = creator (tokenDetails s tok)"
    and "amount > 0" and "assets s tok = Some a" and "amount \<le> balances a (this s)"
  shows "widthdrawToken s sender tok amount =
     Inr (s\<lparr>assets := (assets s)(tok \<mapsto>
                a\<lparr>balances := ledger_move (balances a) (this s) sender amount\<rparr>),
            events := events s @ [TokenWidthdraw tok sender amount]\<rparr>)"
  using assms
  by (simp add: widthdrawToken_def erc20_balanceOf_def erc20_transfer_def not_less)

subsection \<open>Purchases and withdrawals that revert\<close>

lemma transact_buy_reverts:
  assumes "\<And>s1. tokenDetails s1 = tokenDetails s \<Longrightarrow>
      buyToken (send_value (buy_nested n)) s1 sender val tok amount = Inl e"
  shows "transact n s (BuyToken sender val tok amount) = s"
proof (cases "pay_in s sender val")
  case (Inl e')
  then show ?thesis by (simp add: transact_def)
next
  case (Inr s1)
  then have "buyToken (send_value (buy_nested n)) s1 sender val tok amount = Inl e"
    using assms pay_in_frame(1) by blast
  with Inr show ?thesis by (simp add: transact_def)
qed

lemma transact_withdraw_reverts:
  "widthdrawToken s sender tok amount = Inl e \<Longrightarrow> transact n s (WidthdrawToken sender tok amount) = s"
  by (simp add: transact_def)

lemma buyToken_overflow:
  assumes "supported (tokenDetails s tok)" and "amount \<noteq> 0"
    and "\<not> unat (price (tokenDetails s tok)) * unat amount < 2 ^ 256"
  shows "buyToken call_value s sender val tok amount = Inl ArithmeticOverflow"
  using assms by (simp add: buyToken_def Let_def multiply_eq word_greater_zero_iff)

lemma buyToken_incorrect:
  assumes "supported (tokenDetails s tok)" and "amount \<noteq> 0"
    and "unat (price (tokenDetails s tok)) * unat amount < 2 ^ 256"
    and "val \<noteq> price (tokenDetails s tok) * amount"
  shows "buyToken call_value s sender val tok amount = Inl IncorrectPayment"
  using assms by (simp add: buyToken_def Let_def multiply_eq word_greater_zero_iff)

lemma buyToken_scaling:
  assumes "\<not> unat amount * 10 ^ 18 < 2 ^ 256"
  shows "buyToken call_value s sender val tok amount \<noteq> Inr s'"
    and "supported (tokenDetails s tok) \<Longrightarrow> amount > 0 \<Longrightarrow>
         unat (price (tokenDetails s tok)) * unat amount < 2 ^ 256 \<Longrightarrow>
         val = price (tokenDetails s tok) * amount \<Longrightarrow>
         call_value s (creator (tokenDetails s tok)) val = Some s1 \<Longrightarrow>
         buyToken call_value s sender val tok amount = Inl ArithmeticOverflow"
  using assms
  by (auto simp: buyToken_def Let_def multiply_eq checked_mul_def
           split: if_splits sum.splits option.splits)

subsection \<open>The registry across transactions\<close>

lemma transact_withdraw_frame:
  "tokenDetails (transact n s (WidthdrawToken sender tok amount)) = tokenDetails s"
  "allSupportedTokens (transact n s (WidthdrawToken sender tok amount)) = allSupportedTokens s"
  by (auto simp: transact_def widthdrawToken_frame split: sum.splits)

lemma run_listing:
  assumes "\<forall>a. \<forall>x \<in> set (reaction_calls (react a)). \<not> reregisters tok x"
  shows "\<forall>t \<in> set ts. \<not> registers tok t \<Longrightarrow> on_payment s = react \<Longrightarrow>
         on_payment (run n s ts) = react \<and> tokenDetails (run n s ts) tok = tokenDetails s tok"
proof (induction ts arbitrary: s)
  case Nil
  then show ?case by simp
next
  case (Cons t ts)
  have "(\<lambda>s'. on_payment s' = react \<and> tokenDetails s' tok = tokenDetails s tok) (transact n s t)"
    by (rule invariant_transact [OF invariant_listing [OF assms]])
      (use Cons.prems in auto)
  with Cons.IH [of "transact n s t"] Cons.prems(1) show ?case by simp
qed

lemma transact_registry:
  assumes "\<forall>a. \<forall>x \<in> set (reaction_calls (on_payment s a)). \<not> is_registration x"
  shows "registry (transact n s (BuyToken sender val tok amount)) = registry s"
proof -
  have "(\<lambda>s'. on_payment s' = on_payment s \<and> registry s' = registry s)
      (transact n s (BuyToken sender val tok amount))"
    by (rule invariant_transact [OF invariant_registry [OF assms]]) simp_all
  then show ?thesis by simp
qed

lemma buyToken_registry:
  assumes "\<forall>a. \<forall>x \<in> set (reaction_calls (on_payment s a)). \<not> is_registration x"
    and "buyToken (send_value (buy_nested n)) s sender val tok amount = Inr s1"
  shows "registry s1 = registry s"
proof -
  from assms(2) have "buy_nested (Suc n) s sender val tok amount = Inr s1" by simp
  with invariant_buy_nested [OF invariant_registry [OF assms(1), of "registry s"], of "Suc n"]
  show ?thesis by blast
qed

lemma buyToken_body_registry:
  assumes "\<forall>s0 to v s1. call_value s0 to v = Some s1 \<longrightarrow> registry s1 = registry s0"
    and "buyToken call_value s sender val tok amount = Inr s'"
  shows "registry s' = registry s"
proof -
  from assms(2) obtain s1 s2 scaled where
    p: "call_value s (creator (tokenDetails s tok)) val = Some s1" and
    t: "erc20_transfer s1 tok sender scaled = Some s2" and
    s': "s' = s2\<lparr>events := events s2 @ [TokenTransferred tok sender amount]\<rparr>"
    by (auto simp: buyToken_def Let_def split: if_splits sum.splits option.splits)
  from assms(1) p have "registry s1 = registry s" by blast
  with erc20_transfer_frame(1,2) [OF t] s' show ?thesis
    by (simp add: registry_def)
qed

section \<open>The claims\<close>

text \<open>
  C1, as stated: for every supported token with price \<open>p\<close>, every amount above zero and a
  paid value equal to \<open>p * amount\<close>, buy succeeds. It does not: in the state \<open>giveaway\<close> the
  asset is listed at price 0, so a purchase of \<open>2^200\<close> units costs exactly the 0 that is
  paid, the payment of 0 to the creator goes through, and the scaling of the amount by
  \<open>10^18\<close> overflows 256 bits, which reverts the call.
\<close>

theorem buy_exact_payment_counterexample:
  "supported (tokenDetails giveaway 10) \<and> (2 ^ 200 :: uint256) > 0 \<and>
   (0 :: uint256) = price (tokenDetails giveaway 10) * 2 ^ 200 \<and>
   buyToken (send_value (buy_nested 1024)) giveaway 2 0 10 (2 ^ 200) = Inl ArithmeticOverflow \<and>
   execute 1024 giveaway (BuyToken 2 0 10 (2 ^ 200)) = Inl ArithmeticOverflow"
  by (simp add: giveaway_def fresh_def listed_fields buyToken_def multiply_eq send_value_def
        checked_mul_def pay_in_def Let_def)

text \<open>
  C1, amended. A purchase transaction succeeds, the creator's native-currency balance
  grows by the paid value, the buyer's shrinks by it, and the buyer's token balance grows
  by \<open>amount * 10^18\<close> (in 256-bit arithmetic and as a natural number), when all of the
  following hold: the token is supported; the amount is above zero; the cost
  \<open>price * amount\<close> fits in 256 bits; the paid value is that cost and the buyer holds it;
  the buyer is neither the creator nor the marketplace; the creator is not the marketplace
  and its address accepts the payment and does nothing further (it has no code, or code
  that neither calls back into the marketplace nor moves the asset);
  \<open>amount * 10^18\<close> fits in 256 bits and the marketplace holds at least that many units of
  the asset; and the asset balances of the buyer and of the marketplace together fit in
  256 bits.
\<close>

theorem buy_exact_payment:
  assumes "supported (tokenDetails s tok)" and "amount > 0"
    and "unat (price (tokenDetails s tok)) * unat amount < 2 ^ 256"
    and "val = price (tokenDetails s tok) * amount"
    and "unat val \<le> eth s sender"
    and "sender \<noteq> creator (tokenDetails s tok)"
    and "sender \<noteq> this s"
    and "creator (tokenDetails s tok) \<noteq> this s"
    and "on_payment s (creator (tokenDetails s tok)) = Accepts []"
    and "unat amount * 10 ^ 18 < 2 ^ 256"
    and "assets s tok = Some a"
    and "amount * 10 ^ 18 \<le> balances a (this s)"
    and "unat (balances a sender) + unat (balances a (this s)) < 2 ^ 256"
  shows "\<exists>s' a'. execute n s (BuyToken sender val tok amount) = Inr s' \<and>
      eth s' (creator (tokenDetails s tok)) = eth s (creator (tokenDetails s tok)) + unat val \<and>
      eth s' sender + unat val = eth s sender \<and>
      assets s' tok = Some a' \<and>
      balances a' sender = balances a sender + amount * 10 ^ 18 \<and>
      unat (balances a' sender) = unat (balances a sender) + unat amount * 10 ^ 18"
proof -
  let ?amt = "amount * 10 ^ 18"
  let ?c = "creator (tokenDetails s tok)"
  let ?e1 = "((eth s)(sender := eth s sender - unat val))
      (this s := ((eth s)(sender := eth s sender - unat val)) (this s) + unat val)"
  let ?s1 = "s\<lparr>eth := ?e1\<rparr>"
  let ?s2 = "?s1\<lparr>eth := (eth ?s1)(this ?s1 := eth ?s1 (this ?s1) - unat val,
      ?c := eth ?s1 ?c + unat val)\<rparr>"
  have entry: "pay_in s sender val = Inr ?s1"
    using assms(5) by (simp add: pay_in_def Let_def)
  have paid: "send_value (buy_nested n) ?s1 (creator (tokenDetails ?s1 tok)) val = Some ?s2"
    using assms(7,8,9) by (simp add: send_value_plain)
  have body: "buyToken (send_value (buy_nested n)) ?s1 sender val tok amount =
      Inr (?s2\<lparr>assets := (assets ?s2)(tok \<mapsto>
                a\<lparr>balances := ledger_move (balances a) (this ?s2) sender ?amt\<rparr>),
             events := events ?s2 @ [TokenTransferred tok sender amount]\<rparr>)"
    using buyToken_success [where call_value = "send_value (buy_nested n)" and s = ?s1
        and tok = tok and amount = amount and val = val and ?s1.0 = ?s2 and ?a1.0 = a
        and sender = sender] assms(1,2,3,4,10,11,12) paid
    by simp
  have scaled: "unat ?amt = unat amount * 10 ^ 18"
    using assms(10) by (simp add: unat_word_ariths)
  have "unat ?amt \<le> unat (balances a (this s))"
    using assms(12) by (simp add: word_le_nat_alt)
  with assms(13) have "unat (balances a sender) + unat ?amt < 2 ^ 256"
    by simp
  then have "unat (balances a sender + ?amt) = unat (balances a sender) + unat ?amt"
    by (simp add: unat_add_lem [THEN iffD1])
  with scaled have nat_level:
    "unat (balances a sender + ?amt) = unat (balances a sender) + unat amount * 10 ^ 18"
    by simp
  have moved: "ledger_move (balances a) (this s) sender ?amt sender = balances a sender + ?amt"
    using assms(7) by (simp add: ledger_move_apply)
  show ?thesis
    using entry body assms(5,6,7,8) moved nat_level
    by simp
qed

theorem buy_exact_payment_witness:
  "supported (tokenDetails market 10) \<and> (3 :: uint256) > 0 \<and>
   unat (price (tokenDetails market 10)) * unat (3 :: uint256) < 2 ^ 256 \<and>
   (300 :: uint256) = price (tokenDetails market 10) * 3 \<and>
   unat (300 :: uint256) \<le> eth market 2 \<and>
   (2 :: address) \<noteq> creator (tokenDetails market 10) \<and>
   (2 :: address) \<noteq> this market \<and>
   creator (tokenDetails market 10) \<noteq> this market \<and>
   on_payment market (creator (tokenDetails market 10)) = Accepts [] \<and>
   unat (3 :: uint256) * 10 ^ 18 < (2 :: nat) ^ 256 \<and>
   assets market 10 = Some assetA \<and>
   (3 :: uint256) * 10 ^ 18 \<le> balances assetA (this market) \<and>
   unat (balances assetA 2) + unat (balances assetA (this market)) < 2 ^ 256 \<and>
   (\<exists>s' a'. execute 1024 market (BuyToken 2 300 10 3) = Inr s' \<and> eth s' 1 = 1300 \<and>
      eth s' 2 = 700 \<and> assets s' 10 = Some a' \<and> balances a' 2 = 3 * 10 ^ 18 \<and>
      unat (balances a' 2) = 3 * 10 ^ 18)"
proof -
  have h: "supported (tokenDetails market 10)" "(3 :: uint256) > 0"
    "unat (price (tokenDetails market 10)) * unat (3 :: uint256) < 2 ^ 256"
    "(300 :: uint256) = price (tokenDetails market 10) * 3"
    "unat (300 :: uint256) \<le> eth market 2"
    "(2 :: address) \<noteq> creator (tokenDetails market 10)"
    "(2 :: address) \<noteq> this market"
    "creator (tokenDetails market 10) \<noteq> this market"
    "on_payment market (creator (tokenDetails market 10)) = Accepts []"
    "unat (3 :: uint256) * 10 ^ 18 < (2 :: nat) ^ 256"
    "assets market 10 = Some assetA"
    "(3 :: uint256) * 10 ^ 18 \<le> balances assetA (this market)"
    "unat (balances assetA 2) + unat (balances assetA (this market)) < 2 ^ 256"
    by (simp_all add: market_def fresh_def listed_fields assetA_def)
  have c: "creator (tokenDetails market 10) = 1" "eth market 1 = 1000" "eth market 2 = 1000"
    "unat (300 :: uint256) = 300" "balances assetA 2 = 0" "unat (3 :: uint256) = 3"
    by (simp_all add: market_def fresh_def listed_fields assetA_def)
  from buy_exact_payment [OF h, of 1024] obtain s' a' where
    r: "execute 1024 market (BuyToken 2 300 10 3) = Inr s'"
      "eth s' (creator (tokenDetails market 10)) =
         eth market (creator (tokenDetails market 10)) + unat (300 :: uint256)"
      "eth s' 2 + unat (300 :: uint256) = eth market 2"
      "assets s' 10 = Some a'"
      "balances a' 2 = balances assetA 2 + 3 * 10 ^ 18"
      "unat (balances a' 2) = unat (balances assetA 2) + unat (3 :: uint256) * 10 ^ 18"
    by blast
  have "eth s' 1 = 1300" using r(2) c by simp
  moreover have "eth s' 2 = 700" using r(3) c by simp
  moreover have "balances a' 2 = 3 * 10 ^ 18" using r(5) c by simp
  moreover have "unat (balances a' 2) = 3 * 10 ^ 18" using r(6) c by simp
  ultimately have "\<exists>s' a'. execute 1024 market (BuyToken 2 300 10 3) = Inr s' \<and> eth s' 1 = 1300 \<and>
      eth s' 2 = 700 \<and> assets s' 10 = Some a' \<and> balances a' 2 = 3 * 10 ^ 18 \<and>
      unat (balances a' 2) = 3 * 10 ^ 18"
    using r(1,4) by blast
  with h show ?thesis by blast
qed

text \<open>
  C2. For every token and every caller other than the creator stored in its listing,
  \<open>widthdrawToken\<close> fails with \<open>Unauthorized\<close> and the transaction leaves the whole state
  (balances, registry, events) as it was; and whenever a withdrawal succeeds, its caller is
  the creator stored in the listing.
\<close>

theorem withdraw_only_creator:
  "(sender \<noteq> creator (tokenDetails s tok) \<longrightarrow>
      widthdrawToken s sender tok amount = Inl Unauthorized \<and>
      transact n s (WidthdrawToken sender tok amount) = s) \<and>
   (widthdrawToken s sender tok amount = Inr s' \<longrightarrow> sender = creator (tokenDetails s tok))"
  by (auto simp: widthdrawToken_def transact_def)

theorem withdraw_only_creator_witness:
  "(2 :: address) \<noteq> creator (tokenDetails market 10) \<and>
   widthdrawToken market 2 10 3 = Inl Unauthorized \<and>
   transact 1024 market (WidthdrawToken 2 10 3) = market \<and>
   (\<exists>s'. widthdrawToken market 1 10 3 = Inr s') \<and>
   (1 :: address) = creator (tokenDetails market 10)"
proof -
  have h: "(2 :: address) \<noteq> creator (tokenDetails market 10)"
    by (simp add: market_def fresh_def listed_fields)
  have "supported (tokenDetails market 10)" "(1 :: address) = creator (tokenDetails market 10)"
    "(3 :: uint256) > 0" "assets market 10 = Some assetA"
    "(3 :: uint256) \<le> balances assetA (this market)"
    by (simp_all add: market_def fresh_def listed_fields assetA_def)
  from widthdrawToken_success [OF this] obtain s' where
    ok: "widthdrawToken market 1 10 3 = Inr s'" by blast
  from withdraw_only_creator [of 2 market 10 3 1024] h
  have "widthdrawToken market 2 10 3 = Inl Unauthorized \<and>
      transact 1024 market (WidthdrawToken 2 10 3) = market" by blast
  moreover from withdraw_only_creator [of 1 market 10 3 1024 s'] ok
  have "(1 :: address) = creator (tokenDetails market 10)" by blast
  ultimately show ?thesis using h ok by blast
qed

text \<open>
  C3, as stated: for every supported token and amount above zero, a paid value other than
  \<open>price * amount\<close> makes buy fail with \<open>IncorrectPayment\<close>. It does not when the cost
  overflows: in \<open>pricey\<close> the price is \<open>2^255\<close>, the cost of 2 units does not fit in 256
  bits, and a purchase paying 1 fails in \<open>multiply\<close> with \<open>ArithmeticOverflow\<close>, before the
  payment is compared.
\<close>

theorem buy_incorrect_payment_counterexample:
  "supported (tokenDetails pricey 10) \<and> (2 :: uint256) > 0 \<and>
   (1 :: uint256) \<noteq> price (tokenDetails pricey 10) * 2 \<and>
   buyToken (send_value (buy_nested 1024)) pricey 2 1 10 2 = Inl ArithmeticOverflow \<and>
   buyToken (send_value (buy_nested 1024)) pricey 2 1 10 2 \<noteq> Inl IncorrectPayment"
  by (simp add: pricey_def fresh_def listed_fields buyToken_def multiply_eq)

text \<open>
  C3, amended: for every supported token and amount above zero whose cost
  \<open>price * amount\<close> fits in 256 bits, a paid value other than the cost makes \<open>buyToken\<close>
  fail with \<open>IncorrectPayment\<close>, whatever the rest of the state and whatever the payment
  to the creator would do, and the transaction leaves the whole state (balances, registry,
  events) as it was.
\<close>

theorem buy_incorrect_payment:
  assumes "supported (tokenDetails s tok)" and "amount > 0"
    and "unat (price (tokenDetails s tok)) * unat amount < 2 ^ 256"
    and "val \<noteq> price (tokenDetails s tok) * amount"
  shows "buyToken call_value s sender val tok amount = Inl IncorrectPayment \<and>
         transact n s (BuyToken sender val tok amount) = s"
proof -
  have nz: "amount \<noteq> 0" using assms(2) by auto
  have body: "buyToken cv s1 sender val tok amount = Inl IncorrectPayment"
    if "tokenDetails s1 = tokenDetails s" for s1 cv
    using buyToken_incorrect [of s1 tok amount val cv sender] assms nz that by simp
  from body transact_buy_reverts [of s n sender val tok amount IncorrectPayment]
  show ?thesis by simp
qed

theorem buy_incorrect_payment_witness:
  "supported (tokenDetails market 10) \<and> (3 :: uint256) > 0 \<and>
   unat (price (tokenDetails market 10)) * unat (3 :: uint256) < 2 ^ 256 \<and>
   (299 :: uint256) \<noteq> price (tokenDetails market 10) * 3 \<and>
   buyToken (send_value (buy_nested 1024)) market 2 299 10 3 = Inl IncorrectPayment \<and>
   transact 1024 market (BuyToken 2 299 10 3) = market"
proof -
  have h: "supported (tokenDetails market 10)" "(3 :: uint256) > 0"
    "unat (price (tokenDetails market 10)) * unat (3 :: uint256) < 2 ^ 256"
    "(299 :: uint256) \<noteq> price (tokenDetails market 10) * 3"
    by (simp_all add: market_def fresh_def listed_fields)
  from buy_incorrect_payment [OF h, of "send_value (buy_nested 1024)" 2 1024] h
  show ?thesis by simp
qed

text \<open>
  C4, as stated, ends: the overflow check guards the cost multiplication only. It does
  not: the scaling of the amount by \<open>10^18\<close> is a checked multiplication too. In
  \<open>giveaway\<close> the price is 0, the cost of \<open>2^199\<close> units is 0 and passes \<open>multiply\<close> (the
  wrapped product divided by the amount is the price), and the purchase still fails with
  \<open>ArithmeticOverflow\<close>, at \<open>_amount * 10**18\<close>.
\<close>

theorem buy_overflow_counterexample:
  "supported (tokenDetails giveaway 10) \<and> (2 ^ 199 :: uint256) > 0 \<and>
   multiply (price (tokenDetails giveaway 10)) (2 ^ 199) = Inr 0 \<and>
   (price (tokenDetails giveaway 10) * 2 ^ 199) div 2 ^ 199 = price (tokenDetails giveaway 10) \<and>
   buyToken (send_value (buy_nested 1024)) giveaway 2 0 10 (2 ^ 199) = Inl ArithmeticOverflow"
  by (simp add: giveaway_def fresh_def listed_fields buyToken_def multiply_eq send_value_def
        checked_mul_def Let_def)

text \<open>
  C4, amended. For every supported token and amount above zero such that the wrapped
  product \<open>price * amount\<close> divided by the amount is not the price, \<open>buyToken\<close> fails with
  \<open>ArithmeticOverflow\<close>, the transaction leaves the whole state as it was, and the exact
  product does not fit in 256 bits. The cost is not the only multiplication that is
  guarded: for every supported token and amount above zero such that \<open>amount * 10^18\<close>
  does not fit in 256 bits, no purchase succeeds and the transaction leaves the whole
  state as it was; when the cost fits, is paid exactly and the creator accepts the
  payment, the failure is \<open>ArithmeticOverflow\<close> again.
\<close>

theorem buy_overflow:
  "(supported (tokenDetails s tok) \<and> amount > 0 \<and>
    (price (tokenDetails s tok) * amount) div amount \<noteq> price (tokenDetails s tok) \<longrightarrow>
      buyToken call_value s sender val tok amount = Inl ArithmeticOverflow \<and>
      transact n s (BuyToken sender val tok amount) = s \<and>
      2 ^ 256 \<le> unat (price (tokenDetails s tok)) * unat amount) \<and>
   (supported (tokenDetails s tok) \<and> amount > 0 \<and> 2 ^ 256 \<le> unat amount * 10 ^ 18 \<longrightarrow>
      buyToken call_value s sender val tok amount \<noteq> Inr s' \<and>
      transact n s (BuyToken sender val tok amount) = s \<and>
      (unat (price (tokenDetails s tok)) * unat amount < 2 ^ 256 \<and>
       val = price (tokenDetails s tok) * amount \<and>
       call_value s (creator (tokenDetails s tok)) val = Some s1 \<longrightarrow>
         buyToken call_value s sender val tok amount = Inl ArithmeticOverflow))"
proof (intro conjI impI)
  assume a: "supported (tokenDetails s tok) \<and> amount > 0 \<and>
    (price (tokenDetails s tok) * amount) div amount \<noteq> price (tokenDetails s tok)"
  then have nz: "amount \<noteq> 0" by auto
  have big: "\<not> unat (price (tokenDetails s tok)) * unat amount < 2 ^ 256"
    using mul_div_cancel_word [of "price (tokenDetails s tok)" amount] nz a by blast
  have body: "buyToken cv s1 sender val tok amount = Inl ArithmeticOverflow"
    if "tokenDetails s1 = tokenDetails s" for s1 cv
    using buyToken_overflow [of s1 tok amount cv sender val] a nz big that by simp
  from body show "buyToken call_value s sender val tok amount = Inl ArithmeticOverflow"
    by simp
  from body transact_buy_reverts [of s n sender val tok amount ArithmeticOverflow]
  show "transact n s (BuyToken sender val tok amount) = s" by simp
  from big show "2 ^ 256 \<le> unat (price (tokenDetails s tok)) * unat amount"
    by (simp add: not_less)
next
  assume a: "supported (tokenDetails s tok) \<and> amount > 0 \<and> 2 ^ 256 \<le> unat amount * 10 ^ 18"
  then have big: "\<not> unat amount * 10 ^ 18 < 2 ^ 256" by (simp add: not_less)
  from buyToken_scaling(1) [OF big]
  show "buyToken call_value s sender val tok amount \<noteq> Inr s'" .
  have "execute n s (BuyToken sender val tok amount) \<noteq> Inr s2" for s2
    using buyToken_scaling(1) [OF big] by (auto split: sum.splits)
  then show "transact n s (BuyToken sender val tok amount) = s"
    by (cases "execute n s (BuyToken sender val tok amount)") (simp_all add: transact_def)
  assume "unat (price (tokenDetails s tok)) * unat amount < 2 ^ 256 \<and>
       val = price (tokenDetails s tok) * amount \<and>
       call_value s (creator (tokenDetails s tok)) val = Some s1"
  with buyToken_scaling(2) [OF big, of s tok val call_value s1 sender] a
  show "buyToken call_value s sender val tok amount = Inl ArithmeticOverflow" by blast
qed

theorem buy_overflow_witness:
  "supported (tokenDetails pricey 10) \<and> (2 :: uint256) > 0 \<and>
   (price (tokenDetails pricey 10) * 2) div 2 \<noteq> price (tokenDetails pricey 10) \<and>
   buyToken (send_value (buy_nested 1024)) pricey 2 0 10 2 = Inl ArithmeticOverflow \<and>
   transact 1024 pricey (BuyToken 2 0 10 2) = pricey \<and>
   supported (tokenDetails giveaway 10) \<and> (2 ^ 199 :: uint256) > 0 \<and>
   (2 :: nat) ^ 256 \<le> unat (2 ^ 199 :: uint256) * 10 ^ 18 \<and>
   unat (price (tokenDetails giveaway 10)) * unat (2 ^ 199 :: uint256) < 2 ^ 256 \<and>
   (0 :: uint256) = price (tokenDetails giveaway 10) * 2 ^ 199 \<and>
   (\<exists>s1. send_value (buy_nested 1024) giveaway (creator (tokenDetails giveaway 10)) 0 = Some s1) \<and>
   buyToken (send_value (buy_nested 1024)) giveaway 2 0 10 (2 ^ 199) = Inl ArithmeticOverflow \<and>
   transact 1024 giveaway (BuyToken 2 0 10 (2 ^ 199)) = giveaway"
proof -
  have h: "supported (tokenDetails pricey 10) \<and> (2 :: uint256) > 0 \<and>
      (price (tokenDetails pricey 10) * 2) div 2 \<noteq> price (tokenDetails pricey 10)"
    by (simp add: pricey_def fresh_def listed_fields)
  have g: "supported (tokenDetails giveaway 10) \<and> (2 ^ 199 :: uint256) > 0 \<and>
      (2 :: nat) ^ 256 \<le> unat (2 ^ 199 :: uint256) * 10 ^ 18"
    by (simp add: giveaway_def fresh_def listed_fields)
  have g2: "unat (price (tokenDetails giveaway 10)) * unat (2 ^ 199 :: uint256) < 2 ^ 256"
    "(0 :: uint256) = price (tokenDetails giveaway 10) * 2 ^ 199"
    by (simp_all add: giveaway_def fresh_def listed_fields)
  have "on_payment giveaway (creator (tokenDetails giveaway 10)) = Accepts []"
    "creator (tokenDetails giveaway 10) \<noteq> this giveaway"
    "unat (0 :: uint256) \<le> eth giveaway (this giveaway)"
    by (simp_all add: giveaway_def fresh_def listed_fields)
  from send_value_plain [OF this] obtain s1 where
    p: "send_value (buy_nested 1024) giveaway (creator (tokenDetails giveaway 10)) 0 = Some s1"
    by blast
  from buy_overflow [of pricey 10 2 "send_value (buy_nested 1024)" 2 0 1024] h
  have "buyToken (send_value (buy_nested 1024)) pricey 2 0 10 2 = Inl ArithmeticOverflow \<and>
      transact 1024 pricey (BuyToken 2 0 10 2) = pricey" by blast
  moreover
  from buy_overflow [of giveaway 10 "2 ^ 199" "send_value (buy_nested 1024)" 2 0 1024 _ s1] g g2 p
  have "buyToken (send_value (buy_nested 1024)) giveaway 2 0 10 (2 ^ 199) = Inl ArithmeticOverflow \<and>
      transact 1024 giveaway (BuyToken 2 0 10 (2 ^ 199)) = giveaway" by blast
  ultimately show ?thesis using h g g2 p by blast
qed

text \<open>
  C5. For a token that is already registered in a reachable state, a registration of the
  same token with a new price and by a new caller (the asset still answering \<open>name\<close> and
  \<open>symbol\<close>) succeeds, replaces the listing in place (price, creator and metadata are the
  new ones, every other listing is untouched) and appends the token to the index once
  more, so that it occurs there at least twice.
\<close>

theorem reregister_overwrites:
  assumes "reachable s" and "supported (tokenDetails s tok)" and "assets s tok = Some a"
  shows "\<exists>s'. createICOSale s c' tok p' = Inr s' \<and>
      tokenDetails s' tok = \<lparr>token = tok, supported = True, price = p', creator = c',
                              name = tname a, symbol = tsymbol a\<rparr> \<and>
      (\<forall>t. t \<noteq> tok \<longrightarrow> tokenDetails s' t = tokenDetails s t) \<and>
      allSupportedTokens s' = allSupportedTokens s @ [tok] \<and>
      2 \<le> count_list (allSupportedTokens s') tok"
proof -
  from assms(1,2) have "tok \<in> set (allSupportedTokens s)"
    by (simp add: reachable_index)
  then have "1 \<le> count_list (allSupportedTokens s) tok"
    using count_list_0_iff [of "allSupportedTokens s" tok] by (simp add: Suc_le_eq)
  with assms(3) show ?thesis
    by (simp add: createICOSale_def Let_def)
qed

theorem reregister_overwrites_witness:
  "reachable market \<and> supported (tokenDetails market 10) \<and> assets market 10 = Some assetA \<and>
   (\<exists>s'. createICOSale market 2 10 7 = Inr s' \<and>
      price (tokenDetails s' 10) = 7 \<and> creator (tokenDetails s' 10) = 2 \<and>
      allSupportedTokens s' = [10, 10])"
proof -
  have h: "reachable market" "supported (tokenDetails market 10)" "assets market 10 = Some assetA"
    by (simp_all add: market_def fresh_def listed_fields reachable_listed)
  from reregister_overwrites [OF h, of 2 7] obtain s' where
    r: "createICOSale market 2 10 7 = Inr s'"
      "tokenDetails s' 10 = \<lparr>token = 10, supported = True, price = 7, creator = 2,
                              name = tname assetA, symbol = tsymbol assetA\<rparr>"
      "allSupportedTokens s' = allSupportedTokens market @ [10]"
    by blast
  have "price (tokenDetails s' 10) = 7" "creator (tokenDetails s' 10) = 2"
    using r(2) by simp_all
  moreover have "allSupportedTokens s' = [10, 10]"
    using r(3) by (simp add: market_def fresh_def listed_fields)
  ultimately show ?thesis using h r(1) by blast
qed

text \<open>
  C6, as stated: once set at registration, the price and creator of a listing never
  change. They do: after address 1 has listed token 10 at price 100, a second registration
  of token 10 by address 2 at price 7 goes through and the listing then has price 7 and
  creator 2.
\<close>

theorem listing_immutable_counterexample:
  "price (tokenDetails (run 1024 fresh [CreateICOSale 1 10 100]) 10) = 100 \<and>
   creator (tokenDetails (run 1024 fresh [CreateICOSale 1 10 100]) 10) = 1 \<and>
   price (tokenDetails (run 1024 fresh [CreateICOSale 1 10 100, CreateICOSale 2 10 7]) 10) = 7 \<and>
   creator (tokenDetails (run 1024 fresh [CreateICOSale 1 10 100, CreateICOSale 2 10 7]) 10) = 2"
  by (simp add: transact_create fresh_def deployed_fields assetA_def)

text \<open>
  C6, amended: the price and the creator of a listing (the whole listing, in fact) change
  only through a call of \<open>createICOSale\<close> for that token, made as a transaction or made by
  the code of an address while a purchase pays it. Every sequence of transactions none of
  which registers the token, on a host where no address reacts to a payment by
  registering the token, leaves them as they were (the asset being the plain ledger of
  the specification, whose methods do not call back). In the witness the creator's code
  lists another token while it is paid.
\<close>

theorem listing_fixed_without_registration:
  assumes "\<forall>t \<in> set ts. \<not> registers tok t"
    and "\<forall>a. \<forall>x \<in> set (reaction_calls (on_payment s a)). \<not> reregisters tok x"
  shows "price (tokenDetails (run n s ts) tok) = price (tokenDetails s tok) \<and>
         creator (tokenDetails (run n s ts) tok) = creator (tokenDetails s tok) \<and>
         tokenDetails (run n s ts) tok = tokenDetails s tok"
  using run_listing [where react = "on_payment s" and s = s and n = n, OF assms(2) assms(1)]
  by simp

theorem listing_fixed_without_registration_witness:
  "\<not> registers 10 (BuyToken 2 300 10 3) \<and> \<not> registers 10 (CreateICOSale 2 11 5) \<and>
   \<not> registers 10 (WidthdrawToken 18 10 3) \<and> \<not> registers 10 (Receive 2 1) \<and>
   on_payment sidelisting = (\<lambda>_. Accepts [])(18 := Accepts [Try (ReCreateICOSale 11 5)]) \<and>
   price (tokenDetails (run 1024 sidelisting
      [BuyToken 2 300 10 3, CreateICOSale 2 11 5, WidthdrawToken 18 10 3, Receive 2 1]) 10) = 100 \<and>
   creator (tokenDetails (run 1024 sidelisting
      [BuyToken 2 300 10 3, CreateICOSale 2 11 5, WidthdrawToken 18 10 3, Receive 2 1]) 10) = 18"
proof -
  have h: "\<forall>t \<in> set [BuyToken 2 300 10 3, CreateICOSale 2 11 5, WidthdrawToken 18 10 3, Receive 2 1].
       \<not> registers 10 t"
    by simp
  have c: "on_payment sidelisting = (\<lambda>_. Accepts [])(18 := Accepts [Try (ReCreateICOSale 11 5)])"
    by (simp add: sidelisting_def listed_fields)
  then have q: "\<forall>a. \<forall>x \<in> set (reaction_calls (on_payment sidelisting a)). \<not> reregisters 10 x"
    by simp
  have "price (tokenDetails sidelisting 10) = 100" "creator (tokenDetails sidelisting 10) = 18"
    by (simp_all add: sidelisting_def listed_fields)
  with listing_fixed_without_registration [OF h q, of 1024] c show ?thesis
    by simp
qed

text \<open>
  C7, as stated: every buy leaves the registry unchanged. It does not: in \<open>reentrant\<close>
  the creator of token 10 is a contract whose \<open>receive\<close> calls \<open>createICOSale\<close>; one
  purchase of 3 units for 300 succeeds and leaves the listing with price 999 and the token
  twice in the index.
\<close>

theorem registry_frame_counterexample:
  "price (tokenDetails reentrant 10) = 100 \<and> allSupportedTokens reentrant = [10] \<and>
   price (tokenDetails (transact 1024 reentrant (BuyToken 2 300 10 3)) 10) = 999 \<and>
   creator (tokenDetails (transact 1024 reentrant (BuyToken 2 300 10 3)) 10) = 17 \<and>
   allSupportedTokens (transact 1024 reentrant (BuyToken 2 300 10 3)) = [10, 10] \<and>
   registry (transact 1024 reentrant (BuyToken 2 300 10 3)) \<noteq> registry reentrant"
proof -
  have f: "price (tokenDetails reentrant 10) = 100" "allSupportedTokens reentrant = [10]"
    by (simp_all add: reentrant_def listed_fields)
  have entry: "pay_in reentrant 2 300 =
      Inr (reentrant\<lparr>eth := (\<lambda>_. 1000)(2 := 700, 16 := 1300)\<rparr>)"
    by (simp add: pay_in_def Let_def reentrant_def listed_fields)
  let ?s1 = "reentrant\<lparr>eth := (\<lambda>_. 1000)(2 := 700, 16 := 1300)\<rparr>"
  let ?d = "\<lparr>token = 10, supported = True, price = 999, creator = 17,
             name = ''TokenA'', symbol = ''TKA''\<rparr>"
  let ?s2 = "?s1\<lparr>eth := (\<lambda>_. 1000)(2 := 700, 16 := 1000, 17 := 1300),
      tokenDetails := (tokenDetails reentrant)(10 := ?d),
      allSupportedTokens := [10, 10],
      events := events reentrant @ [TokenAdded 10 999 17 ''TokenA'' ''TKA'']\<rparr>"
  have paid: "send_value (buy_nested 1024) ?s1 17 300 = Some ?s2"
    by (simp add: send_value_def createICOSale_eq reentrant_def listed_fields assetA_def
          fun_upd_twist)
  have body: "\<exists>s'. buyToken (send_value (buy_nested 1024)) ?s1 2 300 10 3 = Inr s' \<and>
      tokenDetails s' = tokenDetails ?s2 \<and> allSupportedTokens s' = allSupportedTokens ?s2"
    using paid
    by (simp add: buyToken_def Let_def multiply_eq checked_mul_def erc20_transfer_def
          reentrant_def listed_fields assetA_def)
  then obtain s' where
    r: "execute 1024 reentrant (BuyToken 2 300 10 3) = Inr s'"
      "tokenDetails s' = tokenDetails ?s2" "allSupportedTokens s' = allSupportedTokens ?s2"
    using entry by auto
  then have t: "transact 1024 reentrant (BuyToken 2 300 10 3) = s'"
    by (simp add: transact_def)
  show ?thesis
    unfolding t using r(2,3) f by (simp add: registry_def)
qed

text \<open>
  C7, amended. Every withdrawal and every direct payment, whether it succeeds or reverts,
  leaves the registry (the mapping of listings and the index sequence) unchanged, as the
  state after the transaction and as the state the body of \<open>widthdrawToken\<close> returns; a
  purchase that reverts leaves the whole state unchanged. The body of \<open>buyToken\<close> writes no
  registry entry itself: when the payment to the creator leaves the registry as it was,
  so does the purchase. A purchase that succeeds can therefore change the registry only
  through the registrations that paid code makes by calling back; on a host where no
  address reacts to a payment by a registration, every purchase leaves the registry
  unchanged. The asset is the plain ledger of the specification, whose methods do not
  call back.
\<close>

theorem registry_frame:
  "registry (transact n s (WidthdrawToken sender tok amount)) = registry s \<and>
   registry (transact n s (Receive sender val)) = registry s \<and>
   (widthdrawToken s sender tok amount = Inr s2 \<longrightarrow> registry s2 = registry s) \<and>
   (execute n s (BuyToken sender val tok amount) = Inl e \<longrightarrow>
      transact n s (BuyToken sender val tok amount) = s) \<and>
   ((\<forall>s0 to v s1. call_value s0 to v = Some s1 \<longrightarrow> registry s1 = registry s0) \<and>
    buyToken call_value s sender val tok amount = Inr s3 \<longrightarrow> registry s3 = registry s) \<and>
   ((\<forall>a. \<forall>x \<in> set (reaction_calls (on_payment s a)). \<not> is_registration x) \<longrightarrow>
      registry (transact n s (BuyToken sender val tok amount)) = registry s \<and>
      (buyToken (send_value (buy_nested n)) s sender val tok amount = Inr s1 \<longrightarrow>
         registry s1 = registry s))"
proof -
  have "registry (transact n s (WidthdrawToken sender tok amount)) = registry s"
    by (simp add: registry_def transact_withdraw_frame)
  moreover have "registry (transact n s (Receive sender val)) = registry s"
    by (simp add: transact_receive)
  moreover have "widthdrawToken s sender tok amount = Inr s2 \<longrightarrow> registry s2 = registry s"
    by (simp add: registry_def widthdrawToken_frame)
  moreover have "execute n s (BuyToken sender val tok amount) = Inl e \<longrightarrow>
      transact n s (BuyToken sender val tok amount) = s"
    by (simp add: transact_def)
  moreover have "(\<forall>s0 to v s1. call_value s0 to v = Some s1 \<longrightarrow> registry s1 = registry s0) \<and>
      buyToken call_value s sender val tok amount = Inr s3 \<longrightarrow> registry s3 = registry s"
    using buyToken_body_registry [of call_value s sender val tok amount s3] by blast
  moreover have "(\<forall>a. \<forall>x \<in> set (reaction_calls (on_payment s a)). \<not> is_registration x) \<longrightarrow>
      registry (transact n s (BuyToken sender val tok amount)) = registry s \<and>
      (buyToken (send_value (buy_nested n)) s sender val tok amount = Inr s1 \<longrightarrow>
         registry s1 = registry s)"
    using transact_registry [of s n sender val tok amount]
      buyToken_registry [of s n sender val tok amount s1] by blast
  ultimately show ?thesis by blast
qed

theorem registry_frame_witness:
  "\<exists>s1 s2. widthdrawToken market 1 10 3 = Inr s2 \<and> registry s2 = registry market \<and>
     on_payment market = (\<lambda>_. Accepts []) \<and>
     execute 1024 market (BuyToken 2 300 10 3) = Inr s1 \<and>
     registry (transact 1024 market (BuyToken 2 300 10 3)) = registry market \<and>
     execute 1024 market (BuyToken 2 299 10 3) = Inl IncorrectPayment \<and>
     transact 1024 market (BuyToken 2 299 10 3) = market"
proof -
  have c: "on_payment market = (\<lambda>_. Accepts [])"
    by (simp add: market_def fresh_def listed_fields)
  then have q: "\<forall>a. \<forall>x \<in> set (reaction_calls (on_payment market a)). \<not> is_registration x"
    by simp
  have "supported (tokenDetails market 10)" "(1 :: address) = creator (tokenDetails market 10)"
    "(3 :: uint256) > 0" "assets market 10 = Some assetA"
    "(3 :: uint256) \<le> balances assetA (this market)"
    by (simp_all add: market_def fresh_def listed_fields assetA_def)
  from widthdrawToken_success [OF this] obtain s2 where
    w: "widthdrawToken market 1 10 3 = Inr s2" by blast
  have entry: "pay_in market 2 300 = Inr (market\<lparr>eth := (\<lambda>_. 1000)(2 := 700, 16 := 1300)\<rparr>)"
    by (simp add: pay_in_def Let_def market_def fresh_def listed_fields)
  let ?s1 = "market\<lparr>eth := (\<lambda>_. 1000)(2 := 700, 16 := 1300)\<rparr>"
  have "\<exists>s'. buyToken (send_value (buy_nested 1024)) ?s1 2 300 10 3 = Inr s'"
    by (simp add: buyToken_def Let_def multiply_eq checked_mul_def erc20_transfer_def
          send_value_def market_def fresh_def listed_fields assetA_def)
  then obtain s1 where b: "execute 1024 market (BuyToken 2 300 10 3) = Inr s1"
    using entry by auto
  have bad: "execute 1024 market (BuyToken 2 299 10 3) = Inl IncorrectPayment"
    by (simp add: pay_in_def Let_def buyToken_def multiply_eq market_def fresh_def listed_fields)
  from registry_frame [of 1024 market 1 10 3 _ s2] w
  have "registry s2 = registry market" by blast
  moreover from registry_frame [of 1024 market 2 10 3 300] q
  have "registry (transact 1024 market (BuyToken 2 300 10 3)) = registry market" by blast
  moreover from registry_frame [of 1024 market 2 10 3 299 _ IncorrectPayment] bad
  have "transact 1024 market (BuyToken 2 299 10 3) = market" by blast
  ultimately show ?thesis using w c b bad by blast
qed

text \<open>
  C8. For every supported token, a withdrawal by its creator of an amount above zero that
  the marketplace holds succeeds and moves exactly \<open>amount\<close> units of the asset, unscaled,
  from the marketplace to the caller, and no native currency; whereas a purchase of the
  same \<open>amount\<close> that succeeds moves \<open>amount * 10^18\<close> units from the marketplace to the
  buyer: out of the balances the asset has once the creator has been paid, which are the
  balances before the purchase when the creator's address does not call back.
\<close>

theorem withdraw_raw_units:
  assumes "supported (tokenDetails s tok)" and "sender = creator (tokenDetails s tok)"
    and "amount > 0" and "assets s tok = Some a" and "amount \<le> balances a (this s)"
  shows "\<exists>s' a'. widthdrawToken s sender tok amount = Inr s' \<and>
      assets s' tok = Some a' \<and>
      balances a' = ledger_move (balances a) (this s) sender amount \<and>
      (sender \<noteq> this s \<longrightarrow>
         balances a' sender = balances a sender + amount \<and>
         balances a' (this s) = balances a (this s) - amount \<and>
         unat (balances a' (this s)) + unat amount = unat (balances a (this s))) \<and>
      eth s' = eth s \<and>
      (buyToken call_value s buyer val tok amount = Inr s2 \<longrightarrow>
         (\<exists>s1 a1 a2. call_value s (creator (tokenDetails s tok)) val = Some s1 \<and>
            assets s1 tok = Some a1 \<and> assets s2 tok = Some a2 \<and>
            balances a2 = ledger_move (balances a1) (this s1) buyer (amount * 10 ^ 18))) \<and>
      (on_payment s (creator (tokenDetails s tok)) = Accepts [] \<and>
       buyToken (send_value nested) s buyer val tok amount = Inr s3 \<longrightarrow>
         (\<exists>a3. assets s3 tok = Some a3 \<and>
            balances a3 = ledger_move (balances a) (this s) buyer (amount * 10 ^ 18)))"
proof -
  have "unat (balances a (this s) - amount) + unat amount = unat (balances a (this s))"
    using assms(5) by (simp add: unat_sub word_le_nat_alt)
  moreover have "\<exists>s1 a1 a2. call_value s (creator (tokenDetails s tok)) val = Some s1 \<and>
      assets s1 tok = Some a1 \<and> assets s2 tok = Some a2 \<and>
      balances a2 = ledger_move (balances a1) (this s1) buyer (amount * 10 ^ 18)"
    if "buyToken call_value s buyer val tok amount = Inr s2"
    using buyToken_assets [OF that] by auto
  moreover have "\<exists>a3. assets s3 tok = Some a3 \<and>
      balances a3 = ledger_move (balances a) (this s) buyer (amount * 10 ^ 18)"
    if "on_payment s (creator (tokenDetails s tok)) = Accepts []"
      and "buyToken (send_value nested) s buyer val tok amount = Inr s3"
  proof -
    from buyToken_assets [OF that(2)] obtain s1 a1 where
      p: "send_value nested s (creator (tokenDetails s tok)) val = Some s1" and
      a1: "assets s1 tok = Some a1" and
      a3: "assets s3 tok =
        Some (a1\<lparr>balances := ledger_move (balances a1) (this s1) buyer (amount * 10 ^ 18)\<rparr>)"
      by blast
    from p that(1) have "assets s1 = assets s" "this s1 = this s"
      by (auto simp: send_value_def split: if_splits)
    with a1 a3 assms(4) show ?thesis by simp
  qed
  ultimately show ?thesis
    using widthdrawToken_success [OF assms]
    by (simp add: ledger_move_apply)
qed

theorem withdraw_raw_units_witness:
  "supported (tokenDetails market 10) \<and> (1 :: address) = creator (tokenDetails market 10) \<and>
   (3 :: uint256) > 0 \<and> assets market 10 = Some assetA \<and>
   (3 :: uint256) \<le> balances assetA (this market) \<and> (1 :: address) \<noteq> this market \<and>
   on_payment market (creator (tokenDetails market 10)) = Accepts [] \<and>
   (\<exists>s' a' s3 a3. widthdrawToken market 1 10 3 = Inr s' \<and> assets s' 10 = Some a' \<and>
      balances a' 1 = 3 \<and> balances a' 16 = 5 * 10 ^ 18 - 3 \<and>
      buyToken (send_value (buy_nested 1024)) market 2 300 10 3 = Inr s3 \<and>
      assets s3 10 = Some a3 \<and> balances a3 2 = 3 * 10 ^ 18)"
proof -
  have h: "supported (tokenDetails market 10)" "(1 :: address) = creator (tokenDetails market 10)"
    "(3 :: uint256) > 0" "assets market 10 = Some assetA"
    "(3 :: uint256) \<le> balances assetA (this market)"
    by (simp_all add: market_def fresh_def listed_fields assetA_def)
  have ne: "(1 :: address) \<noteq> this market"
    and c: "on_payment market (creator (tokenDetails market 10)) = Accepts []"
    by (simp_all add: market_def fresh_def listed_fields)
  have "\<exists>s3. buyToken (send_value (buy_nested 1024)) market 2 300 10 3 = Inr s3"
    by (simp add: buyToken_def Let_def multiply_eq checked_mul_def erc20_transfer_def
          send_value_def market_def fresh_def listed_fields assetA_def)
  then obtain s3 where
    b: "buyToken (send_value (buy_nested 1024)) market 2 300 10 3 = Inr s3" by blast
  from withdraw_raw_units [OF h, of _ 2 300 _ "buy_nested 1024" s3] ne c b
  obtain s' a' a3 where
    r: "widthdrawToken market 1 10 3 = Inr s'" "assets s' 10 = Some a'"
      "balances a' 1 = balances assetA 1 + 3"
      "balances a' (this market) = balances assetA (this market) - 3"
      "assets s3 10 = Some a3"
      "balances a3 = ledger_move (balances assetA) (this market) 2 (3 * 10 ^ 18)"
    by blast
  have "balances a' 1 = 3" using r(3) by (simp add: assetA_def)
  moreover have "balances a' 16 = 5 * 10 ^ 18 - 3"
    using r(4) by (simp add: assetA_def market_def fresh_def listed_fields)
  moreover have "balances a3 2 = 3 * 10 ^ 18"
    using r(6) by (simp add: assetA_def market_def fresh_def listed_fields ledger_move_def)
  ultimately show ?thesis using h ne c r(1,2,5) b by blast
qed

text \<open>
  C9. For every state and every creator, the two-pass enumeration \<open>getTokenCreatedBy\<close>
  (count the matches to size the result, then fill it) returns, and what it returns is
  exactly the sequence a single pass over the index yields: the listing of each indexed
  identifier whose creator is the given one, in index order.
\<close>

theorem getTokenCreatedBy_single_pass:
  "getTokenCreatedBy s cr = Inr (listingsByCreator_single_pass s cr)"
  by (simp add: getTokenCreatedBy_def listingsByCreator_single_pass_def Let_def
        count_loop_filter fill_loop_filter)

text \<open>
  C10. In every reachable state, a token that was never registered (it is not in the
  index) has the zero address as stored creator and is not supported; a withdrawal of it
  by any caller other than the zero address fails with \<open>Unauthorized\<close>, since the creator
  check runs first; and a withdrawal fails with \<open>NotSupported\<close> only when the caller is the
  zero address.
\<close>

theorem withdraw_unlisted:
  assumes "reachable s"
  shows "(tok \<notin> set (allSupportedTokens s) \<longrightarrow>
           creator (tokenDetails s tok) = 0 \<and> \<not> supported (tokenDetails s tok)) \<and>
         (tok \<notin> set (allSupportedTokens s) \<and> sender \<noteq> 0 \<longrightarrow>
           widthdrawToken s sender tok amount = Inl Unauthorized) \<and>
         (widthdrawToken s sender tok amount = Inl NotSupported \<longrightarrow> sender = 0)"
proof -
  have unlisted: "tokenDetails s tok = zeroDetails \<and> \<not> supported (tokenDetails s tok)"
    if "tok \<notin> set (allSupportedTokens s)"
    using that reachable_index [OF assms, of tok] reachable_unlisted [OF assms, of tok]
    by simp
  have "sender = 0" if "widthdrawToken s sender tok amount = Inl NotSupported"
  proof -
    from that have "sender = creator (tokenDetails s tok)" "\<not> supported (tokenDetails s tok)"
      by (auto simp: widthdrawToken_def split: if_splits option.splits)
    with reachable_unlisted [OF assms, of tok] show ?thesis
      by (simp add: zeroDetails_def)
  qed
  with unlisted show ?thesis
    by (auto simp: widthdrawToken_def zeroDetails_def)
qed

theorem withdraw_unlisted_witness:
  "reachable fresh \<and> (10 :: address) \<notin> set (allSupportedTokens fresh) \<and> (2 :: address) \<noteq> 0 \<and>
   creator (tokenDetails fresh 10) = 0 \<and>
   widthdrawToken fresh 2 10 3 = Inl Unauthorized \<and>
   widthdrawToken fresh 0 10 3 = Inl NotSupported"
proof -
  have h: "reachable fresh" unfolding fresh_def by (rule reachable_deployed)
  have n: "(10 :: address) \<notin> set (allSupportedTokens fresh)" "(2 :: address) \<noteq> 0"
    by (simp_all add: fresh_def deployed_fields)
  have z: "widthdrawToken fresh 0 10 3 = Inl NotSupported"
    by (simp add: widthdrawToken_def fresh_def deployed_fields zeroDetails_def)
  from withdraw_unlisted [OF h, of 10 2 3] n
  have "creator (tokenDetails fresh 10) = 0" "widthdrawToken fresh 2 10 3 = Inl Unauthorized"
    by blast+
  moreover from withdraw_unlisted [OF h, of 10 0 3] z have "(0 :: address) = 0" by blast
  ultimately show ?thesis using h n z by blast
qed

end
